theory Spec2Isabelle
  imports Complex_Main
begin

section \<open>Progress bar arithmetic (src/web/calculateProgress.ts)\<close>

text \<open>
  The maximum number of marker characters printed for one phase, and the function that
  turns the reported percentage and the number of markers already printed into the
  number of markers to print now. The percentage is a rational, the marker count (an
  integer in the caller) an integer, and \<open>Math.floor\<close> is \<open>floor\<close>.

  The source computes in IEEE doubles. For a double \<open>p\<close> between 0 and 100 and an
  integer count between 0 and \<open>MAX_OUTPUT\<close>, which is where the properties of the
  progress bar use the function, the doubles give the value of the exact arithmetic.
  Let \<open>n\<close> be the floor of \<open>p / 2\<close>. Rounding is monotone and \<open>100 * n\<close> and \<open>n\<close> are
  doubles, so from \<open>100 * n \<le> 50 * p\<close> the rounded product is at least \<open>100 * n\<close> and
  the rounded quotient at least \<open>n\<close>. And \<open>p\<close>, a double below \<open>2 * n + 2\<close>, is at least
  one unit in the last place below it; then \<open>50 * p\<close> is more than half a unit in the last
  place below \<open>100 * (n + 1)\<close> and the product rounds to a double below
  \<open>100 * (n + 1)\<close>, whose quotient by 100 is more than half a unit in the last place
  below \<open>n + 1\<close> and rounds to a double below \<open>n + 1\<close>. The subtraction, the sum and
  the comparison that follow are on integers of two digits. Outside that domain the
  doubles can round to another integer (a count above \<open>2 ^ 53\<close>) and nothing is stated
  about the function there; the properties of polling, of the stop command and of the
  busy flag hold whatever the function returns.
\<close>

definition MAX_OUTPUT :: int where
  "MAX_OUTPUT = 50"

definition calculateProgressDiff :: "rat \<Rightarrow> int \<Rightarrow> int" where
  "calculateProgressDiff progressPercent numberOfProgress =
     (let progressDiff =
            \<lfloor>(of_int MAX_OUTPUT * progressPercent) / 100\<rfloor> - numberOfProgress
      in if numberOfProgress + progressDiff > MAX_OUTPUT
         then MAX_OUTPUT - numberOfProgress
         else progressDiff)"

section \<open>JavaScript strings and errors\<close>

text \<open>
  Strings are character lists. The string methods the sources call are written out:
  \<open>repeat\<close> throws a RangeError on a negative count, \<open>indexOf\<close> returns \<open>-1\<close> when
  the pattern does not occur, \<open>substring\<close> treats a negative start as \<open>0\<close>, and
  \<open>replace\<close> with a string pattern replaces the first occurrence only.
\<close>

datatype js_error =
    RequestError nat  \<comment> \<open>an Octokit request error with its HTTP status\<close>
  | NetworkError      \<comment> \<open>a failed request that carries no status\<close>
  | RangeError        \<comment> \<open>thrown by \<open>String.prototype.repeat\<close>\<close>
  | Error string      \<comment> \<open>\<open>new Error(message)\<close>\<close>

definition status404 :: "js_error \<Rightarrow> bool" where
  "status404 e = (e = RequestError 404)"

definition newline :: string where
  "newline = [CHR 0x0A]"

definition repeat :: "string \<Rightarrow> int \<Rightarrow> js_error + string" where
  "repeat str n = (if n < 0 then Inl RangeError else Inr (concat (replicate (nat n) str)))"

fun startsWith :: "string \<Rightarrow> string \<Rightarrow> bool" where
  "startsWith s [] = True"
| "startsWith [] (p # ps) = False"
| "startsWith (c # cs) (p # ps) = (c = p \<and> startsWith cs ps)"

fun indexOfFrom :: "nat \<Rightarrow> string \<Rightarrow> string \<Rightarrow> int" where
  "indexOfFrom i [] pat = (if pat = [] then int i else - 1)"
| "indexOfFrom i (c # cs) pat =
     (if startsWith (c # cs) pat then int i else indexOfFrom (Suc i) cs pat)"

definition indexOf :: "string \<Rightarrow> string \<Rightarrow> int" where
  "indexOf s pat = indexOfFrom 0 s pat"

definition includes_js :: "string \<Rightarrow> string \<Rightarrow> bool" where
  "includes_js s pat = (indexOf s pat \<noteq> - 1)"

definition substring :: "string \<Rightarrow> int \<Rightarrow> string" where
  "substring s start = drop (nat (max 0 start)) s"

definition replace :: "string \<Rightarrow> string \<Rightarrow> string \<Rightarrow> string" where
  "replace s pat rep =
     (let i = indexOf s pat
      in if i = - 1 then s
         else take (nat i) s @ rep @ drop (nat i + length pat) s)"

fun splitAcc :: "char \<Rightarrow> string \<Rightarrow> string \<Rightarrow> string list" where
  "splitAcc sep acc [] = [rev acc]"
| "splitAcc sep acc (c # cs) =
     (if c = sep then rev acc # splitAcc sep [] cs else splitAcc sep (c # acc) cs)"

definition split :: "string \<Rightarrow> char \<Rightarrow> nat \<Rightarrow> string list" where
  \<comment> \<open>\<open>s.split(sep, limit)\<close> for a one-character separator\<close>
  "split s sep limit = take limit (splitAcc sep [] s)"

definition element :: "string list \<Rightarrow> nat \<Rightarrow> string option" where
  \<comment> \<open>array indexing: \<open>undefined\<close> out of range\<close>
  "element xs i = (if i < length xs then Some (xs ! i) else None)"

definition template :: "string option \<Rightarrow> string" where
  \<comment> \<open>a value inside a template literal: \<open>undefined\<close> prints as text\<close>
  "template v = (case v of None \<Rightarrow> ''undefined'' | Some s \<Rightarrow> s)"

fun digitsOf :: "nat \<Rightarrow> nat \<Rightarrow> string" where
  \<comment> \<open>decimal digits of a number below \<open>10 ^ fuel\<close>, most significant first\<close>
  "digitsOf 0 n = []"
| "digitsOf (Suc fuel) n =
     (if n < 10 then [char_of (48 + n)]
      else digitsOf fuel (n div 10) @ [char_of (48 + n mod 10)])"

definition numberToString :: "nat \<Rightarrow> string" where
  "numberToString n = digitsOf (Suc n) n"

section \<open>The sync cycle (src/web/autoCommit.ts)\<close>

text \<open>
  The Octokit client is outside the repository: the hosting service is a record of
  responses, one per endpoint the code calls, each a function of the request's arguments
  (owner and repository are fixed through one cycle and left out). Every request the code
  issues is logged as a \<open>call\<close>. File content is the decoded text
  (\<open>base64ToArrayBuffer\<close> and \<open>TextDecoder\<close> are not modelled); \<open>None\<close> is a
  missing \<open>content\<close> field.
\<close>

record Tree =
  tree_type :: string
  tree_path :: string
  tree_mode :: string
  tree_sha :: string

record file_item =
  item_type :: string
  item_content :: "string option"
  item_sha :: string

datatype content_data = Listing "file_item list" | Single file_item

datatype call =
    ListBranches
  | GetRepository
  | GetRef string
  | CreateRef string string
  | GetContent string
  | CreateBlob string
  | GetBranch
  | CreateTree "Tree list" string
  | CreateCommit string string "string list"
  | UpdateRef string string
  | GetBlob string
  | DeleteFile string string

record github =
  listBranches :: "js_error + string list"
  getRepository :: "js_error + string"
  getRef :: "string \<Rightarrow> js_error + string"
  createRef :: "string \<Rightarrow> string \<Rightarrow> js_error + unit"
  getContent :: "string \<Rightarrow> js_error + content_data"
  createBlob :: "string \<Rightarrow> js_error + string"
  getBranch :: "js_error + string"
  createTree :: "Tree list \<Rightarrow> string \<Rightarrow> js_error + string"
  createCommit :: "string \<Rightarrow> string \<Rightarrow> string list \<Rightarrow> js_error + string"
  updateRef :: "string \<Rightarrow> string \<Rightarrow> js_error + unit"
  getBlob :: "string \<Rightarrow> js_error + string"
  deleteFile :: "string \<Rightarrow> string \<Rightarrow> js_error + unit"

datatype notification =
    InformationMessage string
  | ErrorMessage string
  | ErrorMessageWith string js_error  \<comment> \<open>a text followed by the printed error\<close>

definition commitMessage :: string where
  "commitMessage = ''Commit with GitHub API''"

definition branch :: string where
  "branch = ''verifier''"

text \<open>
  \<open>getDefaultBranch\<close> is an async function: calling it issues the request and returns a
  promise. A promise inside a template literal prints as \<open>[object Promise]\<close>.
\<close>

datatype 'a promise = Promise "js_error + 'a"

definition getDefaultBranch :: "github \<Rightarrow> string promise \<times> call list" where
  "getDefaultBranch gh = (Promise (getRepository gh), [GetRepository])"

definition templatePromise :: "'a promise \<Rightarrow> string" where
  "templatePromise p = ''[object Promise]''"

text \<open>
  \<open>ensureBranchExists\<close>: the result is what the caller's \<open>await\<close> sees (\<open>Inl\<close> a
  thrown error), with the requests issued. \<open>baseBranch\<close> is the promise itself: the
  source does not await it.
\<close>

definition ensureBranchExists :: "github \<Rightarrow> (js_error + unit) \<times> call list" where
  "ensureBranchExists gh =
     (case listBranches gh of
        Inl e \<Rightarrow> (Inl e, [ListBranches])
      | Inr existingBranches \<Rightarrow>
          (let branchExists = list_ex (\<lambda>name. name = branch) existingBranches
           in if \<not> branchExists then
                (let (baseBranch, cs) = getDefaultBranch gh;
                     ref = ''heads/'' @ templatePromise baseBranch
                 in case getRef gh ref of
                      Inl e \<Rightarrow> (Inl e, [ListBranches] @ cs @ [GetRef ref])
                    | Inr sha \<Rightarrow>
                        (case createRef gh (''refs/heads/'' @ branch) sha of
                           Inl e \<Rightarrow>
                             (Inl e, [ListBranches] @ cs @
                                [GetRef ref, CreateRef (''refs/heads/'' @ branch) sha])
                         | Inr u \<Rightarrow>
                             (Inr (), [ListBranches] @ cs @
                                [GetRef ref, CreateRef (''refs/heads/'' @ branch) sha])))
              else (Inr (), [ListBranches])))"

text \<open>
  The text the comparison uses, from the response of the content request: of a directory
  listing the first entry of type \<open>file\<close>, of a single object its content when it is a
  file, the empty string otherwise (\<open>content || ''\<close>).
\<close>

definition decoded :: "file_item \<Rightarrow> string" where
  "decoded f = (case item_content f of None \<Rightarrow> [] | Some c \<Rightarrow> c)"

definition remoteContent :: "content_data \<Rightarrow> string" where
  "remoteContent d =
     (case d of
        Listing fs \<Rightarrow>
          (case find (\<lambda>f. item_type f = ''file'') fs of
             Some file \<Rightarrow> decoded file
           | None \<Rightarrow> [])
      | Single f \<Rightarrow> (if item_type f = ''file'' then decoded f else []))"

definition blobEntry :: "string \<Rightarrow> string \<Rightarrow> Tree" where
  "blobEntry repoFilePath sha =
     \<lparr>tree_type = ''blob'', tree_path = repoFilePath, tree_mode = ''100644'', tree_sha = sha\<rparr>"

text \<open>
  The state of one cycle: the requests issued so far, the messages shown, and the two
  lists the loop fills.
\<close>

record sync =
  calls :: "call list"
  shown :: "notification list"
  treeList :: "Tree list"
  deletedFilePaths :: "string list"

definition repoFilePathOf :: "string \<Rightarrow> string \<Rightarrow> string" where
  "repoFilePathOf repo changedFilePath =
     (let repositoryNameIndex = indexOf changedFilePath (repo @ ''/'')
      in replace (substring changedFilePath repositoryNameIndex) (repo @ ''/'') [])"

text \<open>
  The \<open>try\<close> block of the loop body: the first component is the error it throws, if any.
\<close>

definition diffAndBlob :: "github \<Rightarrow> string \<Rightarrow> string \<Rightarrow> sync \<Rightarrow> js_error option \<times> sync" where
  "diffAndBlob gh repoFilePath documentText st =
     (let st1 = st\<lparr>calls := calls st @ [GetContent repoFilePath]\<rparr>
      in case getContent gh repoFilePath of
           Inl e \<Rightarrow> (Some e, st1)
         | Inr existingFile \<Rightarrow>
             (if remoteContent existingFile \<noteq> documentText then
                (let st2 = st1\<lparr>calls := calls st1 @ [CreateBlob documentText]\<rparr>
                 in case createBlob gh documentText of
                      Inl e \<Rightarrow> (Some e, st2)
                    | Inr sha \<Rightarrow>
                        (None, st2\<lparr>treeList := treeList st2 @ [blobEntry repoFilePath sha]\<rparr>))
              else (None, st1)))"

text \<open>
  The \<open>catch\<close> block of the loop body: a 404 creates the blob (an error of that request
  leaves the callback), any other error is shown and dropped.
\<close>

definition onDiffError :: "github \<Rightarrow> string \<Rightarrow> string \<Rightarrow> js_error \<Rightarrow> sync \<Rightarrow> js_error option \<times> sync" where
  "onDiffError gh repoFilePath documentText error st =
     (if status404 error then
        (let st1 = st\<lparr>calls := calls st @ [CreateBlob documentText]\<rparr>
         in case createBlob gh documentText of
              Inl e \<Rightarrow> (Some e, st1)
            | Inr sha \<Rightarrow>
                (None, st1\<lparr>treeList := treeList st1 @ [blobEntry repoFilePath sha]\<rparr>))
      else
        (None, st\<lparr>shown := shown st @
           [ErrorMessageWith ''Failed to commit changes. Error: '' error]\<rparr>))"

text \<open>
  One iteration of the loop over the changed paths. \<open>path.relative\<close> followed by
  \<open>Uri.joinPath\<close> on the document's URI leads back to the changed path, so the workspace
  is a function from that path to the document's text (\<open>None\<close>: the document cannot be
  opened, and the rejection handler records a deletion).
\<close>

definition processPath :: "github \<Rightarrow> (string \<Rightarrow> string option) \<Rightarrow> string \<Rightarrow> string \<Rightarrow> string \<Rightarrow> sync \<Rightarrow> js_error option \<times> sync" where
  "processPath gh openTextDocument repositoryPath repo changedFilePath st =
     (if includes_js changedFilePath repositoryPath then
        (let repoFilePath = repoFilePathOf repo changedFilePath
         in case openTextDocument changedFilePath of
              Some documentText \<Rightarrow>
                (case diffAndBlob gh repoFilePath documentText st of
                   (Some error, st1) \<Rightarrow> onDiffError gh repoFilePath documentText error st1
                 | (None, st1) \<Rightarrow> (None, st1))
            | None \<Rightarrow>
                (None, st\<lparr>deletedFilePaths := deletedFilePaths st @ [repoFilePath]\<rparr>))
      else (None, st))"

fun processPaths :: "github \<Rightarrow> (string \<Rightarrow> string option) \<Rightarrow> string \<Rightarrow> string \<Rightarrow> string list \<Rightarrow> sync \<Rightarrow> js_error option \<times> sync" where
  "processPaths gh openTextDocument repositoryPath repo [] st = (None, st)"
| "processPaths gh openTextDocument repositoryPath repo (changedFilePath # rest) st =
     (case processPath gh openTextDocument repositoryPath repo changedFilePath st of
        (Some e, st1) \<Rightarrow> (Some e, st1)
      | (None, st1) \<Rightarrow> processPaths gh openTextDocument repositoryPath repo rest st1)"

text \<open>
  \<open>commitDeletions\<close>: the hash of the file is fetched before each deletion; the deletion
  request itself is not awaited, so its result is not looked at.
\<close>

definition fileShaOf :: "content_data \<Rightarrow> string" where
  "fileShaOf d =
     (case d of
        Listing fs \<Rightarrow> fold (\<lambda>file file_sha. item_sha file) fs []
      | Single f \<Rightarrow> (if item_type f = ''file'' then item_sha f else []))"

fun commitDeletions :: "github \<Rightarrow> string list \<Rightarrow> (js_error + unit) \<times> call list" where
  "commitDeletions gh [] = (Inr (), [])"
| "commitDeletions gh (deletedFilePath # rest) =
     (case getContent gh deletedFilePath of
        Inl e \<Rightarrow> (Inl e, [GetContent deletedFilePath])
      | Inr existingFile \<Rightarrow>
          (let file_sha = fileShaOf existingFile
           in case getBlob gh file_sha of
                Inl e \<Rightarrow> (Inl e, [GetContent deletedFilePath, GetBlob file_sha])
              | Inr blob_sha \<Rightarrow>
                  (let (r, cs) = commitDeletions gh rest
                   in (r, [GetContent deletedFilePath, GetBlob file_sha,
                           DeleteFile deletedFilePath blob_sha] @ cs))))"

text \<open>
  The part of \<open>commitChanges\<close> after the loop, inside the outer \<open>try\<close>. The call of
  \<open>commitDeletions\<close> is not awaited: its requests go to \<open>detached\<close> and its result is
  dropped.
\<close>

record cycle =
  outcome :: "js_error + unit"
  requests :: "call list"
  detached :: "call list"
  messages :: "notification list"
  stored :: "string list option"

definition commitTree :: "github \<Rightarrow> sync \<Rightarrow> (js_error + unit) \<times> sync \<times> call list" where
  "commitTree gh st =
     (let st1 = st\<lparr>calls := calls st @ [GetBranch]\<rparr>
      in case getBranch gh of
           Inl e \<Rightarrow> (Inl e, st1, [])
         | Inr latestCommit \<Rightarrow>
             (if length (treeList st1) > 0 then
                (let st2 = st1\<lparr>calls := calls st1 @ [CreateTree (treeList st1) latestCommit]\<rparr>
                 in case createTree gh (treeList st1) latestCommit of
                      Inl e \<Rightarrow> (Inl e, st2, [])
                    | Inr createdTree \<Rightarrow>
                        (let st3 = st2\<lparr>calls := calls st2 @
                               [CreateCommit commitMessage createdTree [latestCommit]]\<rparr>
                         in case createCommit gh commitMessage createdTree [latestCommit] of
                              Inl e \<Rightarrow> (Inl e, st3, [])
                            | Inr createdCommit \<Rightarrow>
                                (let st4 = st3\<lparr>calls := calls st3 @
                                       [UpdateRef (''heads/'' @ branch) createdCommit]\<rparr>
                                 in case updateRef gh (''heads/'' @ branch) createdCommit of
                                      Inl e \<Rightarrow> (Inl e, st4, [])
                                    | Inr u \<Rightarrow>
                                        (Inr (), st4\<lparr>shown := shown st4 @
                                           [InformationMessage ''Committed modified files.'']\<rparr>,
                                         []))))
              else if length (deletedFilePaths st1) > 0 then
                (Inr (), st1, snd (commitDeletions gh (deletedFilePaths st1)))
              else
                (Inr (), st1\<lparr>shown := shown st1 @
                   [InformationMessage ''No changes to commit.'']\<rparr>, [])))"

text \<open>
  \<open>commitChanges\<close>: \<open>globalState\<close> is the stored value of the key
  \<open>changedFilePaths\<close> (\<open>None\<close>: never set), read as a copy. The outer \<open>catch\<close> shows the
  error and throws it again; the stored list is emptied on the one path that reaches
  \<open>globalState.update\<close>.
\<close>

definition failed :: "js_error \<Rightarrow> sync \<Rightarrow> call list \<Rightarrow> string list option \<Rightarrow> cycle" where
  "failed error st bg globalState =
     \<lparr>outcome = Inl error, requests = calls st, detached = bg,
      messages = shown st @ [ErrorMessageWith ''Failed to commit changes. Error: '' error],
      stored = globalState\<rparr>"

definition commitChanges :: "github \<Rightarrow> (string \<Rightarrow> string option) \<Rightarrow> string list option \<Rightarrow> string \<Rightarrow> cycle" where
  "commitChanges gh openTextDocument globalState repositoryPath =
     (let repositoryInfo = split repositoryPath (CHR ''/'') 3;
          repo = template (element repositoryInfo 2);
          changedFilePaths = (case globalState of None \<Rightarrow> [] | Some paths \<Rightarrow> paths)
      in if length changedFilePaths > 0 then
           (let iniFilePath = repositoryPath @ ''/mml.ini'';
                changedFilePaths = changedFilePaths @ [iniFilePath];
                (ensured, cs) = ensureBranchExists gh;
                st0 = \<lparr>calls = cs, shown = [], treeList = [], deletedFilePaths = []\<rparr>
            in case ensured of
                 Inl e \<Rightarrow> failed e st0 [] globalState
               | Inr u \<Rightarrow>
                   (case processPaths gh openTextDocument repositoryPath repo changedFilePaths st0 of
                      (Some e, st1) \<Rightarrow> failed e st1 [] globalState
                    | (None, st1) \<Rightarrow>
                        (case commitTree gh st1 of
                           (Inl e, st2, bg) \<Rightarrow> failed e st2 bg globalState
                         | (Inr u, st2, bg) \<Rightarrow>
                             \<lparr>outcome = Inr (), requests = calls st2, detached = bg,
                              messages = shown st2, stored = Some []\<rparr>)))
         else
           \<lparr>outcome = Inr (), requests = [], detached = [], messages = [],
            stored = globalState\<rparr>)"

text \<open>
  \<open>commitActiveFile\<close>, the cycle for the one active document (the formatter and the
  linter call it). Its inner \<open>try\<close> block returns early when the content is the same
  (\<open>Inr None\<close>); its inner \<open>catch\<close> shows any error but a 404 and throws it again.
\<close>

definition tryActiveBlob :: "github \<Rightarrow> string \<Rightarrow> string \<Rightarrow> (js_error + string option) \<times> call list" where
  "tryActiveBlob gh repoFilePath documentText =
     (case getContent gh repoFilePath of
        Inl e \<Rightarrow> (Inl e, [GetContent repoFilePath])
      | Inr existingFile \<Rightarrow>
          (if remoteContent existingFile = documentText
           then (Inr None, [GetContent repoFilePath])
           else case createBlob gh documentText of
                  Inl e \<Rightarrow> (Inl e, [GetContent repoFilePath, CreateBlob documentText])
                | Inr sha \<Rightarrow>
                    (Inr (Some sha), [GetContent repoFilePath, CreateBlob documentText])))"

definition catchActiveBlob :: "github \<Rightarrow> string \<Rightarrow> js_error \<Rightarrow> (js_error + string option) \<times> call list \<times> notification list" where
  "catchActiveBlob gh documentText error =
     (if status404 error then
        (case createBlob gh documentText of
           Inl e \<Rightarrow> (Inl e, [CreateBlob documentText], [])
         | Inr sha \<Rightarrow> (Inr (Some sha), [CreateBlob documentText], []))
      else
        (Inl error, [], [ErrorMessageWith ''Failed to commit changes. Error: '' error]))"

definition commitBlob :: "github \<Rightarrow> string \<Rightarrow> string \<Rightarrow> string \<Rightarrow> (js_error + unit) \<times> call list" where
  "commitBlob gh repoFilePath latestCommit sha =
     (let entries = [blobEntry repoFilePath sha]
      in case createTree gh entries latestCommit of
           Inl e \<Rightarrow> (Inl e, [CreateTree entries latestCommit])
         | Inr createdTree \<Rightarrow>
             (case createCommit gh commitMessage createdTree [latestCommit] of
                Inl e \<Rightarrow>
                  (Inl e, [CreateTree entries latestCommit,
                           CreateCommit commitMessage createdTree [latestCommit]])
              | Inr createdCommit \<Rightarrow>
                  (case updateRef gh (''heads/'' @ branch) createdCommit of
                     Inl e \<Rightarrow>
                       (Inl e, [CreateTree entries latestCommit,
                                CreateCommit commitMessage createdTree [latestCommit],
                                UpdateRef (''heads/'' @ branch) createdCommit])
                   | Inr u \<Rightarrow>
                       (Inr (), [CreateTree entries latestCommit,
                                 CreateCommit commitMessage createdTree [latestCommit],
                                 UpdateRef (''heads/'' @ branch) createdCommit]))))"

definition rethrown :: "js_error \<Rightarrow> call list \<Rightarrow> notification list \<Rightarrow> (js_error + unit) \<times> call list \<times> notification list" where
  \<comment> \<open>the outer \<open>catch\<close>: the error is shown and thrown again\<close>
  "rethrown error cs ms =
     (Inl error, cs, ms @ [ErrorMessageWith ''Failed to commit changes. Error: '' error])"

definition commitActiveFile :: "github \<Rightarrow> string \<Rightarrow> string \<Rightarrow> string \<Rightarrow> (js_error + unit) \<times> call list \<times> notification list" where
  "commitActiveFile gh activeFilePath documentText repositoryPath =
     (let repo = template (element (split repositoryPath (CHR ''/'') 3) 2);
          repoFilePath = repoFilePathOf repo activeFilePath;
          (ensured, cs0) = ensureBranchExists gh
      in case ensured of
           Inl e \<Rightarrow> rethrown e cs0 []
         | Inr u \<Rightarrow>
             (case getBranch gh of
                Inl e \<Rightarrow> rethrown e (cs0 @ [GetBranch]) []
              | Inr latestCommit \<Rightarrow>
                  (let (tried, cs1) = tryActiveBlob gh repoFilePath documentText;
                       (createdBlob, cs2, ms) =
                         (case tried of
                            Inl error \<Rightarrow> catchActiveBlob gh documentText error
                          | Inr found \<Rightarrow> (Inr found, [], []));
                       cs = cs0 @ [GetBranch] @ cs1 @ cs2
                   in case createdBlob of
                        Inl e \<Rightarrow> rethrown e cs ms
                      | Inr None \<Rightarrow> (Inr (), cs, ms)
                      | Inr (Some sha) \<Rightarrow>
                          (case commitBlob gh repoFilePath latestCommit sha of
                             (Inl e, cs3) \<Rightarrow> rethrown e (cs @ cs3) ms
                           | (Inr u, cs3) \<Rightarrow> (Inr (), cs @ cs3, ms)))))"




section \<open>Diagnostics (src/web/displayErrors.ts)\<close>

text \<open>
  An entry of the error list the job server sends, and the diagnostics built from it.
  \<open>vscode.Position\<close> belongs to the editor: its constructor refuses a negative line or
  character with an error. \<open>executed\<close> lists the editor commands the code has run.
\<close>

record errorItem =
  errorLine :: int
  errorColumn :: int
  errorNumber :: int
  errorMessage :: string

record position =
  position_line :: int
  position_character :: int

record range =
  range_start :: position
  range_end :: position

record diagnostic =
  diagnostic_range :: range
  diagnostic_message :: string

record uri =
  uri_string :: string  \<comment> \<open>\<open>String(uri)\<close>\<close>
  uri_path :: string
  uri_fsPath :: string

datatype server_request =
    POST string "string \<times> string \<times> string"  \<comment> \<open>endpoint; fileName, repositoryUrl, command\<close>
  | GET string
  | DELETE string

datatype settled = Pending | Resolved | Rejected js_error

text \<open>
  The local variables of one call of \<open>mizarVerify\<close>, which its callbacks close over:
  the parameters \<open>command\<close> and \<open>uri\<close>, the id the submission returned, the three
  variables of the progress bar, and the promise the call returned. With them, what the
  runtime holds for the call: whether the submission is still out, how many of its status
  requests have not settled, and how many of its five-second timeouts have not fired.
\<close>

record locals =
  job_command :: string
  job_uri :: uri
  jobId :: string
  submitting :: bool
  numberOfProgress :: int
  trackedPhases :: "string list"
  currentCommand :: string
  promise :: settled
  inFlight :: nat
  pendingTimeouts :: nat

text \<open>
  What all calls share: the module's variables \<open>intervalId\<close> and \<open>uuid\<close>, the flag
  \<open>isExecuting\<close> and the stored changed paths of the extension's entry file, the output
  channel, the diagnostics, the messages shown, the interval timers that are set (each
  with the call whose \<open>updateProgress\<close> it runs), and the requests sent. \<open>jobs\<close> are the
  calls of \<open>mizarVerify\<close> so far, in order.
\<close>

record client =
  intervalId :: "nat option"
  uuid :: string
  isExecuting :: bool
  changedFilePaths :: "string list option"
  channel :: string
  diagnostics :: "string \<rightharpoonup> diagnostic list"
  executed :: "string list"
  notifications :: "notification list"
  activeIntervals :: "(nat \<times> nat) list"
  nextTimer :: nat
  sent :: "server_request list"
  githubCalls :: "call list"
  jobs :: "locals list"

type_synonym scope = "locals \<times> client"

definition newPosition :: "int \<Rightarrow> int \<Rightarrow> js_error + position" where
  "newPosition l c =
     (if l < 0 then Inl (Error ''Illegal argument: line must be non-negative'')
      else if c < 0 then Inl (Error ''Illegal argument: character must be non-negative'')
      else Inr \<lparr>position_line = l, position_character = c\<rparr>)"

fun buildDiagnostics :: "errorItem list \<Rightarrow> diagnostic list \<Rightarrow> js_error + diagnostic list" where
  "buildDiagnostics [] ds = Inr ds"
| "buildDiagnostics (errorInfo # rest) ds =
     (case newPosition (errorLine errorInfo - 1) (errorColumn errorInfo - 1) of
        Inl e \<Rightarrow> Inl e
      | Inr errorPosition \<Rightarrow>
          buildDiagnostics rest
            (ds @ [\<lparr>diagnostic_range =
                      \<lparr>range_start = errorPosition, range_end = errorPosition\<rparr>,
                    diagnostic_message = errorMessage errorInfo\<rparr>]))"

definition setDiagnostics :: "errorItem list \<Rightarrow> uri \<Rightarrow> client \<Rightarrow> js_error option \<times> client" where
  "setDiagnostics errors u g =
     (case buildDiagnostics errors [] of
        Inl e \<Rightarrow> (Some e, g)
      | Inr ds \<Rightarrow>
          (None, g\<lparr>diagnostics := (diagnostics g)(uri_string u \<mapsto> ds),
                   executed := executed g @ [''workbench.action.problems.focus'']\<rparr>))"

section \<open>The verification job (src/web/mizarFunctions.ts)\<close>

record snapshot =
  queueNum :: nat
  isMakeenvFinish :: bool
  isMakeenvSuccess :: bool
  makeenvText :: string
  progressPhases :: "string list"
  progressPercent :: rat
  numOfErrors :: nat
  errorList :: "errorItem list"
  isVerifierFinish :: bool
  isVerifierSuccess :: bool

definition append_channel :: "string \<Rightarrow> client \<Rightarrow> client" where
  "append_channel text g = g\<lparr>channel := channel g @ text\<rparr>"

definition appendLine :: "string \<Rightarrow> client \<Rightarrow> client" where
  "appendLine text g = g\<lparr>channel := channel g @ text @ newline\<rparr>"

text \<open>
  Timers. \<open>setInterval\<close> returns a fresh positive id, which the code assigns to
  \<open>intervalId\<close>; the timer runs \<open>updateProgress\<close> of the call \<open>k\<close> that set it.
  \<open>stopTimer\<close> is the recurring
  \<open>if (intervalId) clearInterval(intervalId); intervalId = null\<close>. A promise settles
  once: later calls of \<open>resolve\<close> and \<open>reject\<close> change nothing.
\<close>

definition clearInterval :: "nat \<Rightarrow> client \<Rightarrow> client" where
  "clearInterval i g = g\<lparr>activeIntervals := filter (\<lambda>t. fst t \<noteq> i) (activeIntervals g)\<rparr>"

definition setInterval :: "nat \<Rightarrow> client \<Rightarrow> client" where
  "setInterval k g =
     g\<lparr>intervalId := Some (nextTimer g),
       activeIntervals := activeIntervals g @ [(nextTimer g, k)],
       nextTimer := Suc (nextTimer g)\<rparr>"

definition stopTimer :: "client \<Rightarrow> client" where
  "stopTimer g =
     (case intervalId g of
        Some i \<Rightarrow> (clearInterval i g)\<lparr>intervalId := None\<rparr>
      | None \<Rightarrow> g\<lparr>intervalId := None\<rparr>)"

definition resolve :: "locals \<Rightarrow> locals" where
  "resolve l = (if promise l = Pending then l\<lparr>promise := Resolved\<rparr> else l)"

definition reject :: "js_error \<Rightarrow> locals \<Rightarrow> locals" where
  "reject e l = (if promise l = Pending then l\<lparr>promise := Rejected e\<rparr> else l)"

definition padSpace :: "string \<Rightarrow> int \<Rightarrow> js_error + string" where
  "padSpace str num =
     (case repeat '' '' (num - int (length str)) of
        Inl e \<Rightarrow> Inl e
      | Inr padding \<Rightarrow> Inr (str @ padding))"

definition andThen :: "js_error option \<times> 'a \<Rightarrow> ('a \<Rightarrow> js_error option \<times> 'a) \<Rightarrow> js_error option \<times> 'a" where
  \<comment> \<open>the next statement runs unless the previous one has thrown\<close>
  "andThen r f = (case r of (Some e, s) \<Rightarrow> (Some e, s) | (None, s) \<Rightarrow> f s)"

definition addMissingHashTags :: "int \<Rightarrow> nat \<Rightarrow> client \<Rightarrow> js_error option \<times> client" where
  "addMissingHashTags progress numberOfErrors g =
     (if MAX_OUTPUT < progress then (None, g)
      else case repeat ''#'' (MAX_OUTPUT - progress) of
             Inl e \<Rightarrow> (Some e, g)
           | Inr appendChunk \<Rightarrow>
               (let g1 = append_channel appendChunk g;
                    g2 = (if numberOfErrors \<noteq> 0
                          then append_channel ('' *'' @ numberToString numberOfErrors) g1
                          else g1)
                in (None, appendLine [] g2)))"

text \<open>
  The three statements that print the markers of the open phase: the difference, the
  chunk (\<open>repeat\<close> throws on a negative difference, before anything is written), the
  new count.
\<close>

definition printProgress :: "snapshot \<Rightarrow> scope \<Rightarrow> js_error option \<times> scope" where
  "printProgress json s =
     (case s of (l, g) \<Rightarrow>
        (let progressDiff = calculateProgressDiff (progressPercent json) (numberOfProgress l)
         in case repeat ''#'' progressDiff of
              Inl e \<Rightarrow> (Some e, (l, g))
            | Inr appendChunk \<Rightarrow>
                (None, (l\<lparr>numberOfProgress := numberOfProgress l + progressDiff\<rparr>,
                        append_channel appendChunk g))))"

definition lastElement :: "string list \<Rightarrow> string option" where
  \<comment> \<open>\<open>xs[xs.length - 1]\<close>: \<open>undefined\<close> for the empty array\<close>
  "lastElement xs = (if xs = [] then None else Some (last xs))"

definition phaseCallback :: "snapshot \<Rightarrow> string \<Rightarrow> nat \<Rightarrow> scope \<Rightarrow> js_error option \<times> scope" where
  "phaseCallback json phase i s =
     (case s of (l, g) \<Rightarrow>
        (if element (trackedPhases l) i = Some phase then (None, (l, g))
         else if int i = int (length (progressPhases json)) - 1 then
           (case padSpace phase 9 of
              Inl e \<Rightarrow> (Some e, (l, g))
            | Inr label \<Rightarrow>
                printProgress json
                  (l\<lparr>trackedPhases := trackedPhases l @ [phase]\<rparr>,
                   append_channel (label @ '':'') g))
         else
           (case padSpace phase 9 of
              Inl e \<Rightarrow> (Some e, (l, g))
            | Inr label \<Rightarrow>
                (let l1 = l\<lparr>trackedPhases := trackedPhases l @ [phase]\<rparr>;
                     g1 = append_channel (label @ '':'') g
                 in case repeat ''#'' MAX_OUTPUT of
                      Inl e \<Rightarrow> (Some e, (l1, g1))
                    | Inr appendChunk \<Rightarrow> (None, (l1, appendLine appendChunk g1))))))"

fun forEachPhase :: "snapshot \<Rightarrow> (string \<times> nat) list \<Rightarrow> scope \<Rightarrow> js_error option \<times> scope" where
  "forEachPhase json [] s = (None, s)"
| "forEachPhase json ((phase, i) # rest) s =
     andThen (phaseCallback json phase i s) (forEachPhase json rest)"

definition inScope :: "locals \<Rightarrow> js_error option \<times> client \<Rightarrow> js_error option \<times> scope" where
  \<comment> \<open>a statement that touches no local variable\<close>
  "inScope l r = (case r of (e, g) \<Rightarrow> (e, (l, g)))"

definition finishBlock :: "snapshot \<Rightarrow> scope \<Rightarrow> js_error option \<times> scope" where
  "finishBlock json s =
     (case s of (l, g) \<Rightarrow>
        (if isVerifierFinish json then
           andThen
             (inScope l (addMissingHashTags (numberOfProgress l) (numOfErrors json) g))
             (\<lambda>(l1, g1).
                andThen
                  (let g2 = appendLine (newline @ ''End.'') g1
                   in if \<not> isVerifierSuccess json
                      then inScope l1
                             (setDiagnostics (errorList json) (job_uri l1)
                                (appendLine (newline @ ''**** Some errors detected.'') g2))
                      else (None, (l1, g2)))
                  (\<lambda>(l3, g3). (None, (resolve l3, stopTimer g3))))
         else (None, (l, g))))"

definition verifierBlock :: "snapshot \<Rightarrow> scope \<Rightarrow> js_error option \<times> scope" where
  "verifierBlock json s =
     (case s of (l, g) \<Rightarrow>
        andThen
          (if lastElement (trackedPhases l) = lastElement (progressPhases json) then
             printProgress json (l, g)
           else
             andThen
               (if length (trackedPhases l) \<noteq> 0
                then inScope l (addMissingHashTags (numberOfProgress l) (numOfErrors json) g)
                else (None, (l, g)))
               (\<lambda>(l1, g1). forEachPhase json
                        (zip (progressPhases json) [0 ..< length (progressPhases json)])
                        (l1\<lparr>numberOfProgress := 0\<rparr>, g1)))
          (finishBlock json))"

definition queueBlock :: "snapshot \<Rightarrow> scope \<Rightarrow> scope" where
  "queueBlock json s =
     (case s of (l, g) \<Rightarrow>
        (if queueNum json > 0 then
           (l\<lparr>pendingTimeouts := Suc (pendingTimeouts l)\<rparr>,
            stopTimer
              (g\<lparr>channel := ''Your verification request is in queue. '' @ newline @
                     replicate 24 (CHR '' '') @ ''There are '' @
                     numberToString (queueNum json) @ '' requests ahead.''\<rparr>))
         else (l, g)))"

definition makeenvBlock :: "snapshot \<Rightarrow> scope \<Rightarrow> js_error option \<times> scope" where
  "makeenvBlock json s =
     (case s of (l, g) \<Rightarrow>
        (if isMakeenvFinish json \<and> currentCommand l = ''makeenv'' then
           (if isMakeenvSuccess json then
              (None,
               (l\<lparr>currentCommand := ''verifier''\<rparr>,
                appendLine
                  (''   Start |----------------------'' @ ''--------------------------->| End'')
                  (appendLine
                     (''Running '' @ job_command l @ '' on '' @ uri_fsPath (job_uri l) @ newline)
                     (appendLine (makeenvText json) (g\<lparr>channel := []\<rparr>)))))
            else
              andThen (inScope l (setDiagnostics (errorList json) (job_uri l) g))
                (\<lambda>(l1, g1). (None, (reject (Error ''makeenv error'') l1, stopTimer g1))))
         else (None, (l, g))))"

text \<open>
  The handler of a status response, and the \<open>catch\<close> that follows it: an error thrown
  in the handler, or a failed request, is shown, stops the timer and rejects the job.
\<close>

definition onStatus :: "snapshot \<Rightarrow> scope \<Rightarrow> js_error option \<times> scope" where
  "onStatus json s =
     andThen (makeenvBlock json (queueBlock json s))
       (\<lambda>(l, g). if currentCommand l = ''verifier'' then verifierBlock json (l, g)
                   else (None, (l, g)))"

definition onPollError :: "js_error \<Rightarrow> scope \<Rightarrow> scope" where
  "onPollError error s =
     (case s of (l, g) \<Rightarrow>
        (reject error l,
         stopTimer (g\<lparr>notifications := notifications g @ [ErrorMessageWith [] error]\<rparr>)))"

definition handled :: "js_error option \<times> scope \<Rightarrow> scope" where
  \<comment> \<open>\<open>.then(handler).catch(onPollError)\<close>\<close>
  "handled r = (case r of (Some error, s) \<Rightarrow> onPollError error s | (None, s) \<Rightarrow> s)"

definition updateProgress :: "scope \<Rightarrow> scope" where
  "updateProgress s =
     (case s of (l, g) \<Rightarrow>
        (l\<lparr>inFlight := Suc (inFlight l)\<rparr>,
         g\<lparr>sent := sent g @ [GET (''verifier/'' @ jobId l)]\<rparr>))"

definition basename :: "string \<Rightarrow> string" where
  "basename p =
     rev (takeWhile (\<lambda>c. c \<noteq> CHR ''/'') (dropWhile (\<lambda>c. c = CHR ''/'') (rev p)))"

definition mizarVerify :: "string \<Rightarrow> uri \<Rightarrow> string \<Rightarrow> client \<Rightarrow> client" where
  \<comment> \<open>the call itself: fresh local variables, the promise and the submission request\<close>
  "mizarVerify command u repositoryUrl g =
     g\<lparr>sent := sent g @ [POST ''verifier'' (basename (uri_string u), repositoryUrl, command)],
       jobs := jobs g @
         [\<lparr>job_command = command, job_uri = u, jobId = [], submitting = True,
           numberOfProgress = 0, trackedPhases = [], currentCommand = ''makeenv'',
           promise = Pending, inFlight = 0, pendingTimeouts = 0\<rparr>]\<rparr>"

definition onSubmitted :: "nat \<Rightarrow> string \<Rightarrow> scope \<Rightarrow> scope" where
  "onSubmitted k ident s =
     (case s of (l, g) \<Rightarrow>
        updateProgress
          (l\<lparr>jobId := ident, submitting := False\<rparr>,
           setInterval k (stopTimer (g\<lparr>uuid := ident\<rparr>))))"

definition onSubmitFailed :: "js_error \<Rightarrow> scope \<Rightarrow> scope" where
  "onSubmitFailed error s =
     (case s of (l, g) \<Rightarrow>
        (reject error (l\<lparr>submitting := False\<rparr>),
         g\<lparr>notifications := notifications g @
           [ErrorMessageWith ''Error fetching data:'' error, ErrorMessageWith [] error]\<rparr>))"

section \<open>Commands and change tracking (the extension's entry file)\<close>

definition stopCommand :: "client \<Rightarrow> client" where
  "stopCommand g =
     (case intervalId g of
        Some i \<Rightarrow>
          (clearInterval i g)
            \<lparr>notifications := notifications g @ [InformationMessage ''Command stopped!''],
             sent := sent g @ [DELETE (''verifier/'' @ uuid g)],
             isExecuting := False\<rparr>
      | None \<Rightarrow> g\<lparr>isExecuting := False\<rparr>)"

text \<open>
  The two listeners that record a touched path, each without duplicates.
\<close>

definition recordPath :: "string \<Rightarrow> client \<Rightarrow> client" where
  "recordPath changedFilePath g =
     (let paths = (case changedFilePaths g of None \<Rightarrow> [] | Some ps \<Rightarrow> ps)
      in if changedFilePath \<notin> set paths
         then g\<lparr>changedFilePaths := Some (paths @ [changedFilePath])\<rparr>
         else g)"

definition onDidChangeTextDocument :: "string \<Rightarrow> client \<Rightarrow> client" where
  "onDidChangeTextDocument changedFilePath g = recordPath changedFilePath g"

definition onDidDeleteFiles :: "string list \<Rightarrow> client \<Rightarrow> client" where
  "onDidDeleteFiles files g = fold recordPath files g"

text \<open>
  \<open>path.extname\<close> and the match of \<open>/^((\/[^/]+){2})/\<close>: the first two segments of the
  path, each a slash followed by at least one character that is not a slash.
\<close>

definition extname :: "string \<Rightarrow> string" where
  "extname p =
     (let b = basename p;
          ext = rev (takeWhile (\<lambda>c. c \<noteq> CHR ''.'') (rev b))
      in if CHR ''.'' \<notin> set b \<or> b = ''..'' \<or> Suc (length ext) = length b then []
         else CHR ''.'' # ext)"

definition segment :: "string \<Rightarrow> (string \<times> string) option" where
  \<comment> \<open>\<open>\/[^/]+\<close> at the start of the text: the match and the rest\<close>
  "segment p =
     (case p of
        [] \<Rightarrow> None
      | c # cs \<Rightarrow>
          (let name = takeWhile (\<lambda>x. x \<noteq> CHR ''/'') cs
           in if c = CHR ''/'' \<and> name \<noteq> []
              then Some (c # name, dropWhile (\<lambda>x. x \<noteq> CHR ''/'') cs)
              else None))"

definition matchRepositoryPath :: "string \<Rightarrow> string option" where
  "matchRepositoryPath p =
     (case segment p of
        None \<Rightarrow> None
      | Some (first, rest) \<Rightarrow>
          (case segment rest of
             None \<Rightarrow> None
           | Some (second, rest2) \<Rightarrow> Some (first @ second)))"

text \<open>
  The function a Mizar command runs. The sync cycle is run as one step (no other event
  between its requests); when it throws, the \<open>finally\<close> block resets the flag at once.
  Otherwise the command awaits the call of \<open>mizarVerify\<close>, whose events follow.
\<close>

definition showMessage :: "notification \<Rightarrow> client \<Rightarrow> client" where
  "showMessage m g = g\<lparr>notifications := notifications g @ [m]\<rparr>"

definition returnExecutingFunction :: "github \<Rightarrow> (string \<Rightarrow> string option) \<Rightarrow> uri option \<Rightarrow> string \<Rightarrow> string \<Rightarrow> client \<Rightarrow> client" where
  "returnExecutingFunction gh openTextDocument activeTextEditor OAuthToken command g =
     (if isExecuting g then
        showMessage (InformationMessage ''Another command is already executing.'') g
      else case activeTextEditor of
        None \<Rightarrow> showMessage (ErrorMessage ''Not currently in .miz file!!'') g
      | Some u \<Rightarrow>
          (if extname (uri_fsPath u) \<noteq> ''.miz'' then
             showMessage (ErrorMessage ''Not currently in .miz file!!'') g
           else case matchRepositoryPath (uri_path u) of
             None \<Rightarrow> g
           | Some repositoryPath \<Rightarrow>
               (if OAuthToken = [] then
                  showMessage
                    (ErrorMessage (''You have to set '' @ [CHR 0x22] @ ''Mizar.OAuthToken'' @
                       [CHR 0x22] @ '' in settings.json.'')) g
                else
                  (let g1 = g\<lparr>isExecuting := True, channel := [], diagnostics := Map.empty\<rparr>;
                       c = commitChanges gh openTextDocument (changedFilePaths g1) repositoryPath;
                       g2 = g1\<lparr>changedFilePaths := stored c,
                               notifications := notifications g1 @ messages c,
                               githubCalls := githubCalls g1 @ requests c @ detached c\<rparr>
                   in case outcome c of
                        Inl error \<Rightarrow> g2\<lparr>isExecuting := False\<rparr>
                      | Inr done \<Rightarrow>
                          mizarVerify command u (''https://github.com'' @ repositoryPath) g2))))"

section \<open>The events of the client\<close>

text \<open>
  The event loop runs one callback at a time, each to completion. A command is invoked;
  the submission of call \<open>k\<close> returns or fails; an interval timer that is set ticks and
  runs \<open>updateProgress\<close> of its call, which issues the status request at once; a status
  request of call \<open>k\<close> is answered or fails; a timeout of the queue branch of call \<open>k\<close>
  fires (\<open>intervalId = setInterval(updateProgress, 1000)\<close>); the stop command runs.
  A callback of call \<open>k\<close> runs on the variables of that call and on what all calls share;
  the command that awaits the call runs its \<open>finally\<close> block when the promise settles.
\<close>

datatype event =
    Command "uri option" string string
  | Submitted nat string
  | SubmitFailed nat js_error
  | Tick nat
  | StatusArrived nat snapshot
  | StatusFailed nat js_error
  | TimeoutFired nat
  | StopCommand

definition runFinally :: "locals \<Rightarrow> locals \<Rightarrow> client \<Rightarrow> client" where
  "runFinally before after g =
     (if promise before = Pending \<and> promise after \<noteq> Pending
      then g\<lparr>isExecuting := False\<rparr> else g)"

definition inJob :: "nat \<Rightarrow> (scope \<Rightarrow> scope) \<Rightarrow> client \<Rightarrow> client" where
  "inJob k callback s =
     (if k < length (jobs s) then
        (case callback (jobs s ! k, s) of
           (l, g) \<Rightarrow> runFinally (jobs s ! k) l (g\<lparr>jobs := (jobs s)[k := l]\<rparr>))
      else s)"

definition submitted :: "nat \<Rightarrow> string \<Rightarrow> scope \<Rightarrow> scope" where
  "submitted k ident s = (if submitting (fst s) then onSubmitted k ident s else s)"

definition submitFailed :: "js_error \<Rightarrow> scope \<Rightarrow> scope" where
  "submitFailed error s = (if submitting (fst s) then onSubmitFailed error s else s)"

definition statusArrived :: "snapshot \<Rightarrow> scope \<Rightarrow> scope" where
  "statusArrived json s =
     (case s of (l, g) \<Rightarrow>
        (if inFlight l = 0 then (l, g)
         else handled (onStatus json (l\<lparr>inFlight := inFlight l - 1\<rparr>, g))))"

definition statusFailed :: "js_error \<Rightarrow> scope \<Rightarrow> scope" where
  "statusFailed error s =
     (case s of (l, g) \<Rightarrow>
        (if inFlight l = 0 then (l, g)
         else onPollError error
                (l\<lparr>inFlight := inFlight l - 1\<rparr>,
                 g\<lparr>notifications := notifications g @
                      [ErrorMessageWith ''Error fetching data:'' error]\<rparr>)))"

definition timeoutFired :: "nat \<Rightarrow> scope \<Rightarrow> scope" where
  "timeoutFired k s =
     (case s of (l, g) \<Rightarrow>
        (if pendingTimeouts l = 0 then (l, g)
         else (l\<lparr>pendingTimeouts := pendingTimeouts l - 1\<rparr>, setInterval k g)))"

fun step :: "github \<Rightarrow> (string \<Rightarrow> string option) \<Rightarrow> event \<Rightarrow> client \<Rightarrow> client" where
  "step gh ws (Command activeTextEditor OAuthToken command) s =
     returnExecutingFunction gh ws activeTextEditor OAuthToken command s"
| "step gh ws (Submitted k ident) s = inJob k (submitted k ident) s"
| "step gh ws (SubmitFailed k error) s = inJob k (submitFailed error) s"
| "step gh ws (Tick i) s =
     (case map_of (activeIntervals s) i of
        Some k \<Rightarrow> inJob k updateProgress s
      | None \<Rightarrow> s)"
| "step gh ws (StatusArrived k json) s = inJob k (statusArrived json) s"
| "step gh ws (StatusFailed k error) s = inJob k (statusFailed error) s"
| "step gh ws (TimeoutFired k) s = inJob k (timeoutFired k) s"
| "step gh ws StopCommand s = stopCommand s"

fun run :: "github \<Rightarrow> (string \<Rightarrow> string option) \<Rightarrow> event list \<Rightarrow> client \<Rightarrow> client" where
  "run gh ws [] s = s"
| "run gh ws (e # es) s = run gh ws es (step gh ws e s)"

definition initial :: client where
  "initial =
     \<lparr>intervalId = None, uuid = [], isExecuting = False, changedFilePaths = None,
      channel = [], diagnostics = Map.empty, executed = [], notifications = [],
      activeIntervals = [], nextTimer = 1, sent = [], githubCalls = [], jobs = []\<rparr>"

section \<open>What the properties speak about\<close>

text \<open>
  The count of markers of a call is within the width of the bar; a status response
  reports a percentage between 0 and 100.
\<close>

definition counted :: "locals \<Rightarrow> bool" where
  "counted l = (0 \<le> numberOfProgress l \<and> numberOfProgress l \<le> MAX_OUTPUT)"

definition inRange :: "snapshot \<Rightarrow> bool" where
  "inRange json = (0 \<le> progressPercent json \<and> progressPercent json \<le> 100)"

fun statusInRange :: "event \<Rightarrow> bool" where
  "statusInRange (StatusArrived k json) = inRange json"
| "statusInRange other = True"

text \<open>
  The status requests among the requests sent; the call for which an event issues a
  status request, with the id it asks for; the call of which an event settles a request;
  and the schedules in which every status request of call \<open>k\<close> is issued when none of
  its requests is in flight.
\<close>

fun isPoll :: "server_request \<Rightarrow> bool" where
  "isPoll (GET endpoint) = True"
| "isPoll other = False"

fun pollOf :: "event \<Rightarrow> client \<Rightarrow> (nat \<times> string) option" where
  "pollOf (Submitted k ident) s =
     (if k < length (jobs s) \<and> submitting (jobs s ! k) then Some (k, ident) else None)"
| "pollOf (Tick i) s =
     (case map_of (activeIntervals s) i of
        Some k \<Rightarrow> (if k < length (jobs s) then Some (k, jobId (jobs s ! k)) else None)
      | None \<Rightarrow> None)"
| "pollOf other s = None"

fun settles :: "event \<Rightarrow> client \<Rightarrow> nat option" where
  "settles (StatusArrived k json) s =
     (if k < length (jobs s) \<and> inFlight (jobs s ! k) \<noteq> 0 then Some k else None)"
| "settles (StatusFailed k error) s =
     (if k < length (jobs s) \<and> inFlight (jobs s ! k) \<noteq> 0 then Some k else None)"
| "settles other s = None"

fun pollsAfterSettle :: "github \<Rightarrow> (string \<Rightarrow> string option) \<Rightarrow> nat \<Rightarrow> event list \<Rightarrow> client \<Rightarrow> bool" where
  "pollsAfterSettle gh ws k [] s = True"
| "pollsAfterSettle gh ws k (e # es) s =
     ((if map_option fst (pollOf e s) = Some k then inFlight (jobs s ! k) = 0 else True) \<and>
      pollsAfterSettle gh ws k es (step gh ws e s))"


section \<open>Relations used in the proofs\<close>

text \<open>
  What a statement of the handler of a status response leaves as it is: the requests in
  flight, the submission, the id, the requests sent, the flag, and a promise that has
  settled.
\<close>

definition frame :: "scope \<Rightarrow> scope \<Rightarrow> bool" where
  "frame s s' =
     (inFlight (fst s') = inFlight (fst s) \<and> submitting (fst s') = submitting (fst s) \<and>
      jobId (fst s') = jobId (fst s) \<and> sent (snd s') = sent (snd s) \<and>
      isExecuting (snd s') = isExecuting (snd s) \<and>
      (promise (fst s) \<noteq> Pending \<longrightarrow> promise (fst s') = promise (fst s)))"


text \<open>
  Two scopes with the same variables of the call, the same channel, the same diagnostics
  and the same commands run: what the handler of a status response makes of these four
  depends on them alone.
\<close>

definition sameView :: "scope \<Rightarrow> scope \<Rightarrow> bool" where
  "sameView a b =
     (fst a = fst b \<and> channel (snd a) = channel (snd b) \<and>
      diagnostics (snd a) = diagnostics (snd b) \<and> executed (snd a) = executed (snd b))"

section \<open>Example inputs\<close>

text \<open>
  A document of the repository \<open>/o/r\<close>, the command run on it, status responses of the
  job server, and states of the client on the way.
\<close>

definition exampleUri :: uri where
  "exampleUri =
     \<lparr>uri_string = ''vscode-vfs://github/o/r/text/a.miz'', uri_path = ''/o/r/text/a.miz'',
      uri_fsPath = ''/o/r/text/a.miz''\<rparr>"

definition exampleCommand :: event where
  "exampleCommand = Command (Some exampleUri) ''token'' ''verifier''"

definition exampleStatus :: snapshot where
  "exampleStatus =
     \<lparr>queueNum = 0, isMakeenvFinish = True, isMakeenvSuccess = True, makeenvText = ''ok'',
      progressPhases = [''Parser''], progressPercent = 20, numOfErrors = 0, errorList = [],
      isVerifierFinish = False, isVerifierSuccess = False\<rparr>"

definition exampleNext :: snapshot where
  "exampleNext = exampleStatus\<lparr>progressPercent := 60\<rparr>"

definition exampleQueued :: snapshot where
  \<comment> \<open>three requests are ahead in the queue\<close>
  "exampleQueued =
     exampleStatus\<lparr>queueNum := 3, isMakeenvFinish := False, isMakeenvSuccess := False,
       progressPhases := [], progressPercent := 0\<rparr>"

definition exampleFailure :: snapshot where
  \<comment> \<open>the environment could not be prepared: one error at line 3, column 5\<close>
  "exampleFailure =
     exampleStatus\<lparr>isMakeenvSuccess := False,
       errorList := [\<lparr>errorLine = 3, errorColumn = 5, errorNumber = 1,
                      errorMessage = ''err''\<rparr>]\<rparr>"

definition fileWith :: "string \<Rightarrow> string \<Rightarrow> content_data" where
  "fileWith text sha = Single \<lparr>item_type = ''file'', item_content = Some text, item_sha = sha\<rparr>"

definition exampleGithub :: github where
  \<comment> \<open>the branch exists; it holds \<open>text/a.miz\<close> with the text \<open>old\<close> and \<open>mml.ini\<close>\<close>
  "exampleGithub =
     \<lparr>listBranches = Inr [''main'', ''verifier''],
      getRepository = Inr ''main'',
      getRef = (\<lambda>ref. if ref = ''heads/main'' then Inr ''c0'' else Inl (RequestError 404)),
      createRef = (\<lambda>ref sha. Inr ()),
      getContent = (\<lambda>path.
        if path = ''text/a.miz'' then Inr (fileWith ''old'' ''s1'')
        else if path = ''mml.ini'' then Inr (fileWith ''ini'' ''s2'')
        else Inl (RequestError 404)),
      createBlob = (\<lambda>content. Inr (''blob-'' @ content)),
      getBranch = Inr ''c1'',
      createTree = (\<lambda>entries base. Inr ''t1''),
      createCommit = (\<lambda>message tree parents. Inr ''c2''),
      updateRef = (\<lambda>ref sha. Inr ()),
      getBlob = (\<lambda>sha. Inr sha),
      deleteFile = (\<lambda>path sha. Inr ())\<rparr>"

definition exampleWorkspace :: "string \<Rightarrow> string option" where
  "exampleWorkspace path =
     (if path = ''/o/r/text/a.miz'' then Some ''new''
      else if path = ''/o/r/mml.ini'' then Some ''ini''
      else None)"


definition exampleNoBranch :: github where
  \<comment> \<open>the branch is missing; the default branch is \<open>main\<close>, at the commit \<open>c0\<close>\<close>
  "exampleNoBranch = exampleGithub\<lparr>listBranches := Inr [''main'']\<rparr>"

definition exampleDown :: github where
  \<comment> \<open>every content request fails with the status 500\<close>
  "exampleDown = exampleGithub\<lparr>getContent := (\<lambda>path. Inl (RequestError 500))\<rparr>"

definition exampleStale :: github where
  \<comment> \<open>every path of the branch holds the text \<open>old\<close>\<close>
  "exampleStale = exampleGithub\<lparr>getContent := (\<lambda>path. Inr (fileWith ''old'' ''s1''))\<rparr>"




definition exampleSubmitted :: client where
  \<comment> \<open>the command has run and its submission has returned: the timer is set, one status
      request is in flight\<close>
  "exampleSubmitted =
     run exampleGithub exampleWorkspace [exampleCommand, Submitted 0 ''id1''] initial"

definition exampleParsing :: client where
  \<comment> \<open>after the first status response (ten markers of the phase Parser) and the next tick\<close>
  "exampleParsing =
     run exampleGithub exampleWorkspace
       [exampleCommand, Submitted 0 ''id1'', StatusArrived 0 exampleStatus, Tick 1] initial"

definition exampleStoppedInQueue :: client where
  \<comment> \<open>the job is queued, the stop command runs during the five seconds of waiting, the
      timeout fires and the new timer ticks\<close>
  "exampleStoppedInQueue =
     run exampleGithub exampleWorkspace
       [exampleCommand, Submitted 0 ''id1'', StatusArrived 0 exampleQueued, StopCommand,
        TimeoutFired 0, Tick 2] initial"

section \<open>What the callbacks keep\<close>

lemma frame_refl [simp]: "frame s s"
  by (simp add: frame_def)

lemma frame_trans: "frame a b \<Longrightarrow> frame b c \<Longrightarrow> frame a c"
  by (simp add: frame_def)

lemma andThen_cases:
  assumes "andThen m f = (r, s')"
  obtains e where "m = (Some e, s')" "r = Some e"
    | s1 where "m = (None, s1)" "f s1 = (r, s')"
  using assms by (cases m) (auto simp add: andThen_def split: option.splits)

lemma andThen_frame:
  assumes run: "andThen m f = (r, s')"
    and first: "frame s (snd m)"
    and rest: "\<And>s1 r1 s2. f s1 = (r1, s2) \<Longrightarrow> frame s1 s2"
  shows "frame s s'"
  using run
proof (cases rule: andThen_cases)
  case (1 e)
  with first show ?thesis by simp
next
  case (2 s1)
  with first rest [OF 2(2)] show ?thesis by (auto intro: frame_trans)
qed

lemma stopTimer_keeps [simp]:
  "sent (stopTimer g) = sent g" "isExecuting (stopTimer g) = isExecuting g"
  "channel (stopTimer g) = channel g" "diagnostics (stopTimer g) = diagnostics g"
  "executed (stopTimer g) = executed g"
  by (simp_all add: stopTimer_def clearInterval_def split: option.splits)

lemma channel_keeps [simp]:
  "sent (append_channel t g) = sent g" "isExecuting (append_channel t g) = isExecuting g"
  "sent (appendLine t g) = sent g" "isExecuting (appendLine t g) = isExecuting g"
  by (simp_all add: append_channel_def appendLine_def)

lemma settle_keeps [simp]:
  "inFlight (resolve l) = inFlight l" "submitting (resolve l) = submitting l"
  "jobId (resolve l) = jobId l" "numberOfProgress (resolve l) = numberOfProgress l"
  "trackedPhases (resolve l) = trackedPhases l" "currentCommand (resolve l) = currentCommand l"
  "pendingTimeouts (resolve l) = pendingTimeouts l"
  "inFlight (reject e l) = inFlight l" "submitting (reject e l) = submitting l"
  "jobId (reject e l) = jobId l" "numberOfProgress (reject e l) = numberOfProgress l"
  "trackedPhases (reject e l) = trackedPhases l" "currentCommand (reject e l) = currentCommand l"
  "pendingTimeouts (reject e l) = pendingTimeouts l"
  by (simp_all add: resolve_def reject_def)

lemma settle_once [simp]:
  "promise l \<noteq> Pending \<Longrightarrow> promise (resolve l) = promise l"
  "promise l \<noteq> Pending \<Longrightarrow> promise (reject e l) = promise l"
  by (simp_all add: resolve_def reject_def)

lemma addMissingHashTags_keeps:
  "addMissingHashTags n k g = (r, g') \<Longrightarrow> sent g' = sent g \<and> isExecuting g' = isExecuting g"
  by (auto simp add: addMissingHashTags_def repeat_def Let_def split: if_splits)

lemma setDiagnostics_keeps:
  "setDiagnostics es u g = (r, g') \<Longrightarrow> sent g' = sent g \<and> isExecuting g' = isExecuting g"
  by (auto simp add: setDiagnostics_def split: sum.splits)

lemma inScope_frame:
  assumes "inScope l m = (r, s')" and "\<And>g'. snd m = g' \<Longrightarrow> sent g' = sent g \<and> isExecuting g' = isExecuting g"
  shows "frame (l, g) s'"
  using assms by (cases m) (auto simp add: inScope_def frame_def)

lemma printProgress_frame: "printProgress json s = (r, s') \<Longrightarrow> frame s s'"
  by (cases s)
    (auto simp add: printProgress_def frame_def repeat_def Let_def split: if_splits)

lemma phaseCallback_frame: "phaseCallback json phase i s = (r, s') \<Longrightarrow> frame s s'"
proof (cases s)
  case (Pair l g)
  assume run: "phaseCallback json phase i s = (r, s')"
  show ?thesis
  proof (cases "padSpace phase 9")
    case (Inl e)
    with run Pair show ?thesis by (auto simp add: phaseCallback_def split: if_splits)
  next
    case (Inr label)
    let ?s1 = "(l\<lparr>trackedPhases := trackedPhases l @ [phase]\<rparr>, append_channel (label @ '':'') g)"
    have f1: "frame s ?s1" using Pair by (simp add: frame_def)
    from run Pair Inr consider "s' = s" | "printProgress json ?s1 = (r, s')"
      | "s' = (fst ?s1, appendLine (concat (replicate (nat MAX_OUTPUT) ''#'')) (snd ?s1))"
      by (auto simp add: phaseCallback_def repeat_def MAX_OUTPUT_def Let_def split: if_splits)
    then show ?thesis
    proof cases
      case 1
      then show ?thesis by simp
    next
      case 2
      from frame_trans [OF f1 printProgress_frame [OF 2]] show ?thesis .
    next
      case 3
      with Pair show ?thesis by (simp add: frame_def)
    qed
  qed
qed

lemma forEachPhase_frame: "forEachPhase json xs s = (r, s') \<Longrightarrow> frame s s'"
proof (induction xs arbitrary: s r s')
  case Nil
  then show ?case by simp
next
  case (Cons x xs)
  obtain phase i where x: "x = (phase, i)" by (cases x)
  from Cons.prems x
  have run: "andThen (phaseCallback json phase i s) (forEachPhase json xs) = (r, s')" by simp
  obtain r1 s1 where c: "phaseCallback json phase i s = (r1, s1)"
    by (cases "phaseCallback json phase i s")
  show ?case
  proof (rule andThen_frame [OF run])
    show "frame s (snd (phaseCallback json phase i s))"
      using phaseCallback_frame [OF c] c by simp
  next
    fix s1 r1 s2
    assume "forEachPhase json xs s1 = (r1, s2)"
    then show "frame s1 s2" by (rule Cons.IH)
  qed
qed

lemma finishBlock_frame: "finishBlock json s = (r, s') \<Longrightarrow> frame s s'"
proof (cases s)
  case (Pair l g)
  assume run: "finishBlock json s = (r, s')"
  show ?thesis
  proof (cases "isVerifierFinish json")
    case False
    with run Pair show ?thesis by (simp add: finishBlock_def)
  next
    case True
    obtain r0 g0 where a: "addMissingHashTags (numberOfProgress l) (numOfErrors json) g = (r0, g0)"
      by (cases "addMissingHashTags (numberOfProgress l) (numOfErrors json) g")
    from addMissingHashTags_keeps [OF a] have k0: "frame s (l, g0)"
      using Pair by (simp add: frame_def)
    show ?thesis
    proof (cases r0)
      case (Some e)
      with run Pair True a have "s' = (l, g0)"
        by (simp add: finishBlock_def inScope_def andThen_def)
      with k0 show ?thesis by simp
    next
      case None
      let ?g2 = "appendLine (newline @ ''End.'') g0"
      show ?thesis
      proof (cases "isVerifierSuccess json")
        case True
        with run Pair \<open>isVerifierFinish json\<close> a None
        have "s' = (resolve l, stopTimer ?g2)"
          by (simp add: finishBlock_def inScope_def andThen_def Let_def)
        with k0 Pair show ?thesis by (simp add: frame_def)
      next
        case False
        obtain r3 g3 where d: "setDiagnostics (errorList json) (job_uri l)
            (appendLine (newline @ ''**** Some errors detected.'') ?g2) = (r3, g3)"
          by (cases "setDiagnostics (errorList json) (job_uri l)
            (appendLine (newline @ ''**** Some errors detected.'') ?g2)")
        from setDiagnostics_keeps [OF d] k0 Pair
        have k3: "sent g3 = sent g" "isExecuting g3 = isExecuting g" by (simp_all add: frame_def)
        from run Pair \<open>isVerifierFinish json\<close> a None False d
        have "s' = (l, g3) \<or> s' = (resolve l, stopTimer g3)"
          by (cases r3) (simp_all add: finishBlock_def inScope_def andThen_def Let_def)
        with k3 Pair show ?thesis by (auto simp add: frame_def)
      qed
    qed
  qed
qed

lemma verifierBlock_frame: "verifierBlock json s = (r, s') \<Longrightarrow> frame s s'"
proof (cases s)
  case (Pair l g)
  assume run: "verifierBlock json s = (r, s')"
  let ?xs = "zip (progressPhases json) [0 ..< length (progressPhases json)]"
  let ?loop = "\<lambda>(l1, g1). forEachPhase json ?xs (l1\<lparr>numberOfProgress := 0\<rparr>, g1)"
  let ?pad = "if length (trackedPhases l) \<noteq> 0
      then inScope l (addMissingHashTags (numberOfProgress l) (numOfErrors json) g)
      else (None, (l, g))"
  let ?first = "if lastElement (trackedPhases l) = lastElement (progressPhases json)
      then printProgress json (l, g) else andThen ?pad ?loop"
  have pad: "frame s (snd ?pad)"
  proof (cases "length (trackedPhases l) \<noteq> 0")
    case True
    obtain r0 g0 where a: "addMissingHashTags (numberOfProgress l) (numOfErrors json) g = (r0, g0)"
      by (cases "addMissingHashTags (numberOfProgress l) (numOfErrors json) g")
    from addMissingHashTags_keeps [OF a] True a Pair show ?thesis
      by (simp add: inScope_def frame_def)
  next
    case False
    with Pair show ?thesis by simp
  qed
  have loop: "frame s1 s2" if "?loop s1 = (r1, s2)" for s1 r1 s2
  proof (cases s1)
    case (Pair l1 g1)
    with that have "forEachPhase json ?xs (l1\<lparr>numberOfProgress := 0\<rparr>, g1) = (r1, s2)" by simp
    from forEachPhase_frame [OF this] Pair show ?thesis by (simp add: frame_def)
  qed
  have first: "frame s (snd ?first)"
  proof (cases "lastElement (trackedPhases l) = lastElement (progressPhases json)")
    case True
    obtain r1 s1 where p: "printProgress json (l, g) = (r1, s1)"
      by (cases "printProgress json (l, g)")
    from printProgress_frame [OF p] p True Pair show ?thesis by simp
  next
    case False
    obtain r1 s1 where p: "andThen ?pad ?loop = (r1, s1)" by (cases "andThen ?pad ?loop")
    from andThen_frame [OF p pad loop] p False show ?thesis by simp
  qed
  from run Pair have "andThen ?first (finishBlock json) = (r, s')"
    by (simp add: verifierBlock_def)
  from andThen_frame [OF this first finishBlock_frame] show ?thesis .
qed

lemma queueBlock_frame: "frame s (queueBlock json s)"
  by (cases s) (simp add: queueBlock_def frame_def)

lemma makeenvBlock_frame: "makeenvBlock json s = (r, s') \<Longrightarrow> frame s s'"
proof (cases s)
  case (Pair l g)
  assume run: "makeenvBlock json s = (r, s')"
  obtain r3 g3 where d: "setDiagnostics (errorList json) (job_uri l) g = (r3, g3)"
    by (cases "setDiagnostics (errorList json) (job_uri l) g")
  from setDiagnostics_keeps [OF d] have k: "sent g3 = sent g" "isExecuting g3 = isExecuting g"
    by simp_all
  from run Pair d
  have "s' = s \<or> s' = (l, g3) \<or> s' = (reject (Error ''makeenv error'') l, stopTimer g3) \<or>
      (sent (snd s') = sent g \<and> isExecuting (snd s') = isExecuting g \<and>
       fst s' = l\<lparr>currentCommand := ''verifier''\<rparr>)"
    by (cases r3) (auto simp add: makeenvBlock_def inScope_def andThen_def split: if_splits)
  with k Pair show ?thesis by (auto simp add: frame_def)
qed

lemma onStatus_frame: "onStatus json s = (r, s') \<Longrightarrow> frame s s'"
proof -
  assume run: "onStatus json s = (r, s')"
  let ?rest = "\<lambda>(l, g). if currentCommand l = ''verifier'' then verifierBlock json (l, g)
                   else (None, (l, g))"
  obtain r1 s1 where m: "makeenvBlock json (queueBlock json s) = (r1, s1)"
    by (cases "makeenvBlock json (queueBlock json s)")
  have first: "frame s (snd (makeenvBlock json (queueBlock json s)))"
    using frame_trans [OF queueBlock_frame makeenvBlock_frame [OF m]] m by simp
  have rest: "frame a b" if "?rest a = (r2, b)" for a r2 b
    using that by (cases a) (auto split: if_splits dest: verifierBlock_frame)
  from run have "andThen (makeenvBlock json (queueBlock json s)) ?rest = (r, s')"
    by (simp add: onStatus_def)
  from andThen_frame [OF this first rest] show ?thesis .
qed

lemma onPollError_frame: "frame s (onPollError e s)"
  by (cases s) (simp add: onPollError_def frame_def)

lemma handled_frame: "m = (r, s1) \<Longrightarrow> frame s s1 \<Longrightarrow> frame s (handled m)"
  by (cases r) (auto simp add: handled_def intro: frame_trans onPollError_frame)

section \<open>Requests in flight\<close>

lemma runFinally_keeps [simp]:
  "sent (runFinally a b g) = sent g" "jobs (runFinally a b g) = jobs g"
  "channel (runFinally a b g) = channel g" "diagnostics (runFinally a b g) = diagnostics g"
  "executed (runFinally a b g) = executed g"
  by (simp_all add: runFinally_def)

lemma inJob_jobs:
  "jobs (inJob k c s) =
     (if k < length (jobs s) then (jobs s)[k := fst (c (jobs s ! k, s))] else jobs s)"
  by (simp add: inJob_def split: prod.splits)

lemma inJob_sent:
  "sent (inJob k c s) =
     (if k < length (jobs s) then sent (snd (c (jobs s ! k, s))) else sent s)"
  by (simp add: inJob_def split: prod.splits)

text \<open>What each callback does to the requests in flight and to the requests sent.\<close>

lemma statusArrived_effect:
  assumes "statusArrived json (l, g) = (l', g')"
  shows "inFlight l' = inFlight l - 1 \<and> sent g' = sent g \<and> isExecuting g' = isExecuting g \<and>
         (promise l \<noteq> Pending \<longrightarrow> promise l' = promise l)"
proof (cases "inFlight l = 0")
  case True
  with assms show ?thesis by (simp add: statusArrived_def)
next
  case False
  let ?s1 = "(l\<lparr>inFlight := inFlight l - 1\<rparr>, g)"
  obtain r s2 where h: "onStatus json ?s1 = (r, s2)" by (cases "onStatus json ?s1")
  from handled_frame [OF h onStatus_frame [OF h]] assms False
  have "frame ?s1 (l', g')" by (simp add: statusArrived_def)
  then show ?thesis by (simp add: frame_def)
qed

lemma statusFailed_effect:
  assumes "statusFailed e (l, g) = (l', g')"
  shows "inFlight l' = inFlight l - 1 \<and> sent g' = sent g \<and> isExecuting g' = isExecuting g \<and>
         (promise l \<noteq> Pending \<longrightarrow> promise l' = promise l)"
  using assms by (auto simp add: statusFailed_def onPollError_def split: if_splits)

lemma timeoutFired_effect:
  assumes "timeoutFired k (l, g) = (l', g')"
  shows "inFlight l' = inFlight l \<and> sent g' = sent g \<and> isExecuting g' = isExecuting g \<and>
         promise l' = promise l"
  using assms by (auto simp add: timeoutFired_def setInterval_def split: if_splits)

lemma updateProgress_effect:
  assumes "updateProgress (l, g) = (l', g')"
  shows "inFlight l' = Suc (inFlight l) \<and> sent g' = sent g @ [GET (''verifier/'' @ jobId l)] \<and>
         isExecuting g' = isExecuting g \<and> promise l' = promise l"
  using assms by (auto simp add: updateProgress_def)

lemma submitted_effect:
  assumes "submitted k ident (l, g) = (l', g')"
  shows "inFlight l' = (if submitting l then Suc (inFlight l) else inFlight l) \<and>
         sent g' = (if submitting l then sent g @ [GET (''verifier/'' @ ident)] else sent g) \<and>
         isExecuting g' = isExecuting g \<and> promise l' = promise l"
  using assms
  by (auto simp add: submitted_def onSubmitted_def updateProgress_def setInterval_def
      split: if_splits)

lemma submitFailed_effect:
  assumes "submitFailed e (l, g) = (l', g')"
  shows "inFlight l' = inFlight l \<and> sent g' = sent g \<and> isExecuting g' = isExecuting g \<and>
         (promise l \<noteq> Pending \<longrightarrow> promise l' = promise l)"
  using assms by (auto simp add: submitFailed_def onSubmitFailed_def split: if_splits)

text \<open>A command starts at most one call, after the calls there are.\<close>

lemma returnExecutingFunction_jobs:
  "jobs (returnExecutingFunction gh ws ed tok cmd s) = jobs s \<or>
   (\<exists>l. jobs (returnExecutingFunction gh ws ed tok cmd s) = jobs s @ [l] \<and>
        promise l = Pending \<and> numberOfProgress l = 0 \<and> \<not> isExecuting s \<and>
        isExecuting (returnExecutingFunction gh ws ed tok cmd s))"
  by (auto simp add: returnExecutingFunction_def showMessage_def mizarVerify_def Let_def
      split: option.splits sum.splits)

lemma returnExecutingFunction_polls:
  "filter isPoll (sent (returnExecutingFunction gh ws ed tok cmd s)) = filter isPoll (sent s)"
  by (auto simp add: returnExecutingFunction_def showMessage_def mizarVerify_def Let_def
      split: option.splits sum.splits)

lemma stopCommand_keeps [simp]:
  "jobs (stopCommand s) = jobs s" "channel (stopCommand s) = channel s"
  "diagnostics (stopCommand s) = diagnostics s" "executed (stopCommand s) = executed s"
  "intervalId (stopCommand s) = intervalId s" "isExecuting (stopCommand s) = False"
  "filter isPoll (sent (stopCommand s)) = filter isPoll (sent s)"
  by (simp_all add: stopCommand_def clearInterval_def split: option.splits)

lemma step_polls:
  "filter isPoll (sent (step gh ws e s)) =
     filter isPoll (sent s) @
     (case pollOf e s of Some (k, ident) \<Rightarrow> [GET (''verifier/'' @ ident)] | None \<Rightarrow> [])"
proof (cases e)
  case (Command ed tok cmd)
  then show ?thesis by (simp add: returnExecutingFunction_polls)
next
  case (Submitted k ident)
  obtain l' g' where c: "submitted k ident (jobs s ! k, s) = (l', g')"
    by (cases "submitted k ident (jobs s ! k, s)")
  from submitted_effect [OF c] c Submitted show ?thesis by (simp add: inJob_sent)
next
  case (SubmitFailed k error)
  obtain l' g' where c: "submitFailed error (jobs s ! k, s) = (l', g')"
    by (cases "submitFailed error (jobs s ! k, s)")
  from submitFailed_effect [OF c] c SubmitFailed show ?thesis by (simp add: inJob_sent)
next
  case (Tick i)
  show ?thesis
  proof (cases "map_of (activeIntervals s) i")
    case None
    with Tick show ?thesis by simp
  next
    case (Some k)
    obtain l' g' where c: "updateProgress (jobs s ! k, s) = (l', g')"
      by (cases "updateProgress (jobs s ! k, s)")
    from updateProgress_effect [OF c] c Tick Some show ?thesis by (simp add: inJob_sent)
  qed
next
  case (StatusArrived k json)
  obtain l' g' where c: "statusArrived json (jobs s ! k, s) = (l', g')"
    by (cases "statusArrived json (jobs s ! k, s)")
  from statusArrived_effect [OF c] c StatusArrived show ?thesis by (simp add: inJob_sent)
next
  case (StatusFailed k error)
  obtain l' g' where c: "statusFailed error (jobs s ! k, s) = (l', g')"
    by (cases "statusFailed error (jobs s ! k, s)")
  from statusFailed_effect [OF c] c StatusFailed show ?thesis by (simp add: inJob_sent)
next
  case (TimeoutFired k)
  obtain l' g' where c: "timeoutFired k (jobs s ! k, s) = (l', g')"
    by (cases "timeoutFired k (jobs s ! k, s)")
  from timeoutFired_effect [OF c] c TimeoutFired show ?thesis by (simp add: inJob_sent)
next
  case StopCommand
  then show ?thesis by simp
qed

lemma step_length: "length (jobs s) \<le> length (jobs (step gh ws e s))"
proof (cases e)
  case (Command ed tok cmd)
  with returnExecutingFunction_jobs [of gh ws ed tok cmd s] show ?thesis by auto
next
  case (Tick i)
  then show ?thesis by (simp add: inJob_jobs split: option.splits)
qed (simp_all add: inJob_jobs)

lemma step_inFlight:
  assumes k: "k < length (jobs s)"
  shows "inFlight (jobs (step gh ws e s) ! k) =
     inFlight (jobs s ! k) + (if map_option fst (pollOf e s) = Some k then 1 else 0)
       - (if settles e s = Some k then 1 else 0)"
proof (cases e)
  case (Command ed tok cmd)
  with returnExecutingFunction_jobs [of gh ws ed tok cmd s] k show ?thesis
    by (auto simp add: nth_append)
next
  case (Submitted j ident)
  obtain l' g' where c: "submitted j ident (jobs s ! j, s) = (l', g')"
    by (cases "submitted j ident (jobs s ! j, s)")
  from submitted_effect [OF c] c Submitted k show ?thesis
    by (cases "j = k") (simp_all add: inJob_jobs)
next
  case (SubmitFailed j error)
  obtain l' g' where c: "submitFailed error (jobs s ! j, s) = (l', g')"
    by (cases "submitFailed error (jobs s ! j, s)")
  from submitFailed_effect [OF c] c SubmitFailed k show ?thesis
    by (cases "j = k") (simp_all add: inJob_jobs)
next
  case (Tick i)
  show ?thesis
  proof (cases "map_of (activeIntervals s) i")
    case None
    with Tick show ?thesis by simp
  next
    case (Some j)
    obtain l' g' where c: "updateProgress (jobs s ! j, s) = (l', g')"
      by (cases "updateProgress (jobs s ! j, s)")
    from updateProgress_effect [OF c] c Tick Some k show ?thesis
      by (cases "j = k") (simp_all add: inJob_jobs)
  qed
next
  case (StatusArrived j json)
  obtain l' g' where c: "statusArrived json (jobs s ! j, s) = (l', g')"
    by (cases "statusArrived json (jobs s ! j, s)")
  from statusArrived_effect [OF c] c StatusArrived k show ?thesis
    by (cases "j = k") (simp_all add: inJob_jobs)
next
  case (StatusFailed j error)
  obtain l' g' where c: "statusFailed error (jobs s ! j, s) = (l', g')"
    by (cases "statusFailed error (jobs s ! j, s)")
  from statusFailed_effect [OF c] c StatusFailed k show ?thesis
    by (cases "j = k") (simp_all add: inJob_jobs)
next
  case (TimeoutFired j)
  obtain l' g' where c: "timeoutFired j (jobs s ! j, s) = (l', g')"
    by (cases "timeoutFired j (jobs s ! j, s)")
  from timeoutFired_effect [OF c] c TimeoutFired k show ?thesis
    by (cases "j = k") (simp_all add: inJob_jobs)
next
  case StopCommand
  then show ?thesis by simp
qed

lemma run_sequential:
  "pollsAfterSettle gh ws k es s \<Longrightarrow> k < length (jobs s) \<Longrightarrow> inFlight (jobs s ! k) \<le> 1 \<Longrightarrow>
     inFlight (jobs (run gh ws es s) ! k) \<le> 1"
proof (induction es arbitrary: s)
  case Nil
  then show ?case by simp
next
  case (Cons e es)
  from Cons.prems have rest: "pollsAfterSettle gh ws k es (step gh ws e s)" by simp
  from Cons.prems(2) step_length [of s gh ws e]
  have len: "k < length (jobs (step gh ws e s))" by simp
  have "inFlight (jobs (step gh ws e s) ! k) \<le> 1"
    using step_inFlight [OF Cons.prems(2), of gh ws e] Cons.prems(1,3)
    by (simp split: if_splits)
  from Cons.IH [OF rest len this] show ?case by simp
qed

section \<open>The count of markers\<close>

lemma calculateProgressDiff_upper:
  "emitted + calculateProgressDiff percent emitted \<le> MAX_OUTPUT"
  by (simp add: calculateProgressDiff_def Let_def)

lemma calculateProgressDiff_nonneg_iff:
  "emitted \<le> MAX_OUTPUT \<Longrightarrow>
     0 \<le> calculateProgressDiff percent emitted \<longleftrightarrow>
     emitted \<le> \<lfloor>(of_int MAX_OUTPUT * percent) / 100\<rfloor>"
  by (auto simp add: calculateProgressDiff_def Let_def)

lemma printProgress_count:
  assumes "printProgress json (l, g) = (r, (l', g'))"
  shows "numberOfProgress l \<le> numberOfProgress l' \<and>
         (numberOfProgress l \<le> MAX_OUTPUT \<longrightarrow> numberOfProgress l' \<le> MAX_OUTPUT)"
  using assms calculateProgressDiff_upper [of "numberOfProgress l" "progressPercent json"]
  by (auto simp add: printProgress_def repeat_def Let_def split: if_splits)

lemma printProgress_counted:
  "printProgress json s = (r, s') \<Longrightarrow> counted (fst s) \<Longrightarrow> counted (fst s')"
  using printProgress_count [of json "fst s" "snd s" r "fst s'" "snd s'"]
  by (simp add: counted_def)

lemma phaseCallback_counted:
  assumes "phaseCallback json phase i s = (r, s')" and "counted (fst s)"
  shows "counted (fst s')"
proof (cases s)
  case (Pair l g)
  show ?thesis
  proof (cases "padSpace phase 9")
    case (Inl e)
    with assms Pair show ?thesis by (auto simp add: phaseCallback_def split: if_splits)
  next
    case (Inr label)
    let ?s1 = "(l\<lparr>trackedPhases := trackedPhases l @ [phase]\<rparr>, append_channel (label @ '':'') g)"
    from assms(2) Pair have c1: "counted (fst ?s1)" by (simp add: counted_def)
    from assms(1) Pair Inr consider "s' = s" | "printProgress json ?s1 = (r, s')"
      | "s' = (fst ?s1, appendLine (concat (replicate (nat MAX_OUTPUT) ''#'')) (snd ?s1))"
      by (auto simp add: phaseCallback_def repeat_def MAX_OUTPUT_def Let_def split: if_splits)
    then show ?thesis
    proof cases
      case 1
      with assms(2) show ?thesis by simp
    next
      case 2
      from printProgress_counted [OF 2 c1] show ?thesis .
    next
      case 3
      with c1 show ?thesis by simp
    qed
  qed
qed

lemma forEachPhase_counted:
  "forEachPhase json xs s = (r, s') \<Longrightarrow> counted (fst s) \<Longrightarrow> counted (fst s')"
proof (induction xs arbitrary: s r s')
  case Nil
  then show ?case by simp
next
  case (Cons x xs)
  obtain phase i where x: "x = (phase, i)" by (cases x)
  from Cons.prems(1) x
  have "andThen (phaseCallback json phase i s) (forEachPhase json xs) = (r, s')" by simp
  then show ?case
  proof (cases rule: andThen_cases)
    case (1 e)
    from phaseCallback_counted [OF 1(1) Cons.prems(2)] show ?thesis .
  next
    case (2 s1)
    from Cons.IH [OF 2(2) phaseCallback_counted [OF 2(1) Cons.prems(2)]] show ?thesis .
  qed
qed

lemma addMissingHashTags_scope:
  "inScope l (addMissingHashTags n k g) = (r, s') \<Longrightarrow> fst s' = l"
  by (cases "addMissingHashTags n k g") (auto simp add: inScope_def)

lemma setDiagnostics_scope:
  "inScope l (setDiagnostics es u g) = (r, s') \<Longrightarrow> fst s' = l"
  by (cases "setDiagnostics es u g") (auto simp add: inScope_def)

lemma finishBlock_count:
  assumes "finishBlock json s = (r, s')"
  shows "numberOfProgress (fst s') = numberOfProgress (fst s) \<and>
         trackedPhases (fst s') = trackedPhases (fst s)"
proof (cases s)
  case (Pair l g)
  show ?thesis
  proof (cases "isVerifierFinish json")
    case False
    with assms Pair show ?thesis by (simp add: finishBlock_def)
  next
    case True
    let ?tail = "\<lambda>(l1, g1).
                andThen
                  (let g2 = appendLine (newline @ ''End.'') g1
                   in if \<not> isVerifierSuccess json
                      then inScope l1
                             (setDiagnostics (errorList json) (job_uri l1)
                                (appendLine (newline @ ''**** Some errors detected.'') g2))
                      else (None, (l1, g2)))
                  (\<lambda>(l3, g3). (None, (resolve l3, stopTimer g3)))"
    from assms Pair True
    have "andThen (inScope l (addMissingHashTags (numberOfProgress l) (numOfErrors json) g))
        ?tail = (r, s')" by (simp add: finishBlock_def)
    then show ?thesis
    proof (cases rule: andThen_cases)
      case (1 e)
      from addMissingHashTags_scope [OF 1(1)] Pair show ?thesis by simp
    next
      case (2 s1)
      from addMissingHashTags_scope [OF 2(1)] have l1: "fst s1 = l" .
      obtain g1 where s1: "s1 = (l, g1)" using l1 by (cases s1) simp
      from 2(2) s1 have "andThen
                  (let g2 = appendLine (newline @ ''End.'') g1
                   in if \<not> isVerifierSuccess json
                      then inScope l
                             (setDiagnostics (errorList json) (job_uri l)
                                (appendLine (newline @ ''**** Some errors detected.'') g2))
                      else (None, (l, g2)))
                  (\<lambda>(l3, g3). (None, (resolve l3, stopTimer g3))) = (r, s')" by simp
      then show ?thesis
      proof (cases rule: andThen_cases)
        case (1 e)
        then have "fst s' = l"
          by (auto simp add: Let_def split: if_splits dest: setDiagnostics_scope)
        with Pair show ?thesis by simp
      next
        case (2 s3)
        from 2(1) have "fst s3 = l"
          by (auto simp add: Let_def split: if_splits dest: setDiagnostics_scope)
        with 2(2) Pair show ?thesis by (cases s3) auto
      qed
    qed
  qed
qed

lemma verifierBlock_counted:
  assumes run: "verifierBlock json s = (r, s')" and c: "counted (fst s)"
  shows "counted (fst s')"
proof (cases s)
  case (Pair l g)
  let ?xs = "zip (progressPhases json) [0 ..< length (progressPhases json)]"
  let ?loop = "\<lambda>(l1, g1). forEachPhase json ?xs (l1\<lparr>numberOfProgress := 0\<rparr>, g1)"
  let ?pad = "if length (trackedPhases l) \<noteq> 0
      then inScope l (addMissingHashTags (numberOfProgress l) (numOfErrors json) g)
      else (None, (l, g))"
  let ?first = "if lastElement (trackedPhases l) = lastElement (progressPhases json)
      then printProgress json (l, g) else andThen ?pad ?loop"
  have padded: "fst s1 = l" if "?pad = (r1, s1)" for r1 s1
    using that by (auto split: if_splits dest: addMissingHashTags_scope)
  have first: "counted (fst s1)" if f: "?first = (r1, s1)" for r1 s1
  proof (cases "lastElement (trackedPhases l) = lastElement (progressPhases json)")
    case True
    with f have "printProgress json (l, g) = (r1, s1)" by simp
    from printProgress_counted [OF this] c Pair show ?thesis by simp
  next
    case False
    with f have "andThen ?pad ?loop = (r1, s1)" by simp
    then show ?thesis
    proof (cases rule: andThen_cases)
      case (1 e)
      from padded [OF 1(1)] c Pair show ?thesis by simp
    next
      case (2 s0)
      obtain l0 g0 where s0: "s0 = (l0, g0)" by (cases s0)
      have "counted (fst (l0\<lparr>numberOfProgress := 0\<rparr>, g0))"
        by (simp add: counted_def MAX_OUTPUT_def)
      moreover from 2(2) s0
      have "forEachPhase json ?xs (l0\<lparr>numberOfProgress := 0\<rparr>, g0) = (r1, s1)" by simp
      ultimately show ?thesis by (rule forEachPhase_counted [rotated])
    qed
  qed
  from run Pair have "andThen ?first (finishBlock json) = (r, s')"
    by (simp add: verifierBlock_def)
  then show ?thesis
  proof (cases rule: andThen_cases)
    case (1 e)
    from first [OF 1(1)] show ?thesis .
  next
    case (2 s1)
    from first [OF 2(1)] finishBlock_count [OF 2(2)] show ?thesis by (simp add: counted_def)
  qed
qed

lemma queueBlock_count [simp]:
  "numberOfProgress (fst (queueBlock json s)) = numberOfProgress (fst s)"
  "trackedPhases (fst (queueBlock json s)) = trackedPhases (fst s)"
  by (cases s; simp add: queueBlock_def)+

lemma makeenvBlock_count:
  assumes "makeenvBlock json s = (r, s')"
  shows "numberOfProgress (fst s') = numberOfProgress (fst s) \<and>
         trackedPhases (fst s') = trackedPhases (fst s)"
proof (cases s)
  case (Pair l g)
  obtain r3 g3 where d: "setDiagnostics (errorList json) (job_uri l) g = (r3, g3)"
    by (cases "setDiagnostics (errorList json) (job_uri l) g")
  from assms Pair d show ?thesis
    by (cases r3) (auto simp add: makeenvBlock_def inScope_def andThen_def split: if_splits)
qed

lemma onStatus_cases:
  assumes "onStatus json s = (r, s')"
  obtains "makeenvBlock json (queueBlock json s) = (r, s')"
  | s2 where "makeenvBlock json (queueBlock json s) = (None, s2)"
      "verifierBlock json s2 = (r, s')"
proof -
  from assms have "andThen (makeenvBlock json (queueBlock json s))
       (\<lambda>(l, g). if currentCommand l = ''verifier'' then verifierBlock json (l, g)
                   else (None, (l, g))) = (r, s')" by (simp add: onStatus_def)
  then show ?thesis
  proof (cases rule: andThen_cases)
    case (1 e)
    with that(1) show ?thesis by simp
  next
    case (2 s2)
    then show ?thesis using that by (cases s2) (auto split: if_splits)
  qed
qed

lemma onStatus_counted:
  assumes "onStatus json s = (r, s')" and "counted (fst s)"
  shows "counted (fst s')"
  using assms(1)
proof (cases rule: onStatus_cases)
  case 1
  from makeenvBlock_count [OF 1] assms(2) show ?thesis by (simp add: counted_def)
next
  case (2 s2)
  from makeenvBlock_count [OF 2(1)] assms(2) have "counted (fst s2)" by (simp add: counted_def)
  from verifierBlock_counted [OF 2(2) this] show ?thesis .
qed

lemma onStatus_same_phase:
  assumes run: "onStatus json s = (r, s')"
    and same: "lastElement (trackedPhases (fst s)) = lastElement (progressPhases json)"
  shows "numberOfProgress (fst s) \<le> numberOfProgress (fst s')"
  using run
proof (cases rule: onStatus_cases)
  case 1
  from makeenvBlock_count [OF 1] show ?thesis by simp
next
  case (2 s2)
  obtain l2 g2 where s2: "s2 = (l2, g2)" by (cases s2)
  from makeenvBlock_count [OF 2(1)] s2
  have keep: "numberOfProgress l2 = numberOfProgress (fst s)" "trackedPhases l2 = trackedPhases (fst s)"
    by simp_all
  from 2(2) s2 same keep
  have "andThen (printProgress json (l2, g2)) (finishBlock json) = (r, s')"
    by (simp add: verifierBlock_def)
  then show ?thesis
  proof (cases rule: andThen_cases)
    case (1 e)
    from printProgress_count [of json l2 g2 "Some e" "fst s'" "snd s'"] 1 keep show ?thesis by simp
  next
    case (2 s3)
    from printProgress_count [of json l2 g2 None "fst s3" "snd s3"] 2(1) finishBlock_count [OF 2(2)] keep
    show ?thesis by simp
  qed
qed

lemma handled_count:
  "numberOfProgress (fst (handled (r, s))) = numberOfProgress (fst s)"
  by (cases r; cases s) (simp_all add: handled_def onPollError_def)

lemma statusArrived_counted:
  assumes "counted l"
  shows "counted (fst (statusArrived json (l, g)))"
proof (cases "inFlight l = 0")
  case True
  with assms show ?thesis by (simp add: statusArrived_def)
next
  case False
  let ?s1 = "(l\<lparr>inFlight := inFlight l - 1\<rparr>, g)"
  obtain r s2 where h: "onStatus json ?s1 = (r, s2)" by (cases "onStatus json ?s1")
  from assms have "counted (fst ?s1)" by (simp add: counted_def)
  from onStatus_counted [OF h this] h False handled_count [of r s2] show ?thesis
    by (simp add: statusArrived_def counted_def)
qed

lemma statusArrived_same_phase:
  assumes "lastElement (trackedPhases l) = lastElement (progressPhases json)"
  shows "numberOfProgress l \<le> numberOfProgress (fst (statusArrived json (l, g)))"
proof (cases "inFlight l = 0")
  case True
  then show ?thesis by (simp add: statusArrived_def)
next
  case False
  let ?s1 = "(l\<lparr>inFlight := inFlight l - 1\<rparr>, g)"
  obtain r s2 where h: "onStatus json ?s1 = (r, s2)" by (cases "onStatus json ?s1")
  from assms have "lastElement (trackedPhases (fst ?s1)) = lastElement (progressPhases json)"
    by simp
  from onStatus_same_phase [OF h this] h False handled_count [of r s2] show ?thesis
    by (simp add: statusArrived_def)
qed

lemma other_callbacks_count [simp]:
  "numberOfProgress (fst (statusFailed e s)) = numberOfProgress (fst s)"
  "numberOfProgress (fst (timeoutFired k s)) = numberOfProgress (fst s)"
  "numberOfProgress (fst (updateProgress s)) = numberOfProgress (fst s)"
  "numberOfProgress (fst (submitted k ident s)) = numberOfProgress (fst s)"
  "numberOfProgress (fst (submitFailed e s)) = numberOfProgress (fst s)"
  by (cases s; simp add: statusFailed_def onPollError_def timeoutFired_def updateProgress_def
      submitted_def onSubmitted_def submitFailed_def onSubmitFailed_def)+

lemma list_all_update: "list_all P xs \<Longrightarrow> P y \<Longrightarrow> list_all P (xs[k := y])"
  by (induction xs arbitrary: k) (auto split: nat.splits)

lemma inJob_counted:
  assumes all: "list_all counted (jobs s)"
    and cb: "\<And>l g. counted l \<Longrightarrow> counted (fst (c (l, g)))"
  shows "list_all counted (jobs (inJob k c s))"
proof (cases "k < length (jobs s)")
  case True
  with all have "counted (jobs s ! k)" by (simp add: list_all_length)
  from cb [OF this] all True show ?thesis by (simp add: inJob_jobs list_all_update)
next
  case False
  with all show ?thesis by (simp add: inJob_jobs)
qed

lemma inJob_same_count:
  assumes all: "list_all counted (jobs s)"
    and cb: "\<And>x. numberOfProgress (fst (c x)) = numberOfProgress (fst x)"
  shows "list_all counted (jobs (inJob k c s))"
  using all by (rule inJob_counted) (simp add: counted_def cb)

lemma step_counted:
  assumes all: "list_all counted (jobs s)"
  shows "list_all counted (jobs (step gh ws e s))"
proof (cases e)
  case (Command ed tok cmd)
  with returnExecutingFunction_jobs [of gh ws ed tok cmd s] all show ?thesis
    by (auto simp add: counted_def MAX_OUTPUT_def)
next
  case (StatusArrived k json)
  with all show ?thesis by (simp add: inJob_counted statusArrived_counted)
next
  case (Tick i)
  have "list_all counted (jobs (inJob k updateProgress s))" for k
    using all by (rule inJob_same_count) simp
  with Tick all show ?thesis by (simp split: option.splits)
next
  case StopCommand
  with all show ?thesis by simp
next
  case (Submitted k ident)
  from inJob_same_count [OF all, of "submitted k ident" k] Submitted show ?thesis by simp
next
  case (SubmitFailed k error)
  from inJob_same_count [OF all, of "submitFailed error" k] SubmitFailed show ?thesis by simp
next
  case (StatusFailed k error)
  from inJob_same_count [OF all, of "statusFailed error" k] StatusFailed show ?thesis by simp
next
  case (TimeoutFired k)
  from inJob_same_count [OF all, of "timeoutFired k" k] TimeoutFired show ?thesis by simp
qed

lemma run_counted:
  "list_all counted (jobs s) \<Longrightarrow> list_all counted (jobs (run gh ws es s))"
  by (induction es arbitrary: s) (simp_all add: step_counted)

section \<open>The busy flag\<close>







section \<open>A status response reads no flag of the stop command\<close>

lemma sameView_pair:
  "sameView (l, g) (l', g') \<longleftrightarrow>
     l = l' \<and> channel g = channel g' \<and> diagnostics g = diagnostics g' \<and> executed g = executed g'"
  by (simp add: sameView_def)

lemma addMissingHashTags_view:
  assumes "channel g = channel g'" "diagnostics g = diagnostics g'" "executed g = executed g'"
  shows "fst (addMissingHashTags n k g) = fst (addMissingHashTags n k g') \<and>
         channel (snd (addMissingHashTags n k g)) = channel (snd (addMissingHashTags n k g')) \<and>
         diagnostics (snd (addMissingHashTags n k g)) = diagnostics (snd (addMissingHashTags n k g')) \<and>
         executed (snd (addMissingHashTags n k g)) = executed (snd (addMissingHashTags n k g'))"
  using assms
  by (simp add: addMissingHashTags_def repeat_def append_channel_def appendLine_def Let_def)

lemma setDiagnostics_view:
  assumes "channel g = channel g'" "diagnostics g = diagnostics g'" "executed g = executed g'"
  shows "fst (setDiagnostics es u g) = fst (setDiagnostics es u g') \<and>
         channel (snd (setDiagnostics es u g)) = channel (snd (setDiagnostics es u g')) \<and>
         diagnostics (snd (setDiagnostics es u g)) = diagnostics (snd (setDiagnostics es u g')) \<and>
         executed (snd (setDiagnostics es u g)) = executed (snd (setDiagnostics es u g'))"
  using assms by (simp add: setDiagnostics_def split: sum.splits)

lemma inScope_view:
  assumes "fst m = fst m'" "channel (snd m) = channel (snd m')"
    "diagnostics (snd m) = diagnostics (snd m')" "executed (snd m) = executed (snd m')"
  shows "fst (inScope l m) = fst (inScope l m') \<and> sameView (snd (inScope l m)) (snd (inScope l m'))"
  using assms by (cases m; cases m') (simp add: inScope_def sameView_def)

lemma andThen_view:
  assumes m: "fst ma = fst mb" "sameView (snd ma) (snd mb)"
    and f: "\<And>x y. sameView x y \<Longrightarrow> fst (f x) = fst (f y) \<and> sameView (snd (f x)) (snd (f y))"
  shows "fst (andThen ma f) = fst (andThen mb f) \<and>
         sameView (snd (andThen ma f)) (snd (andThen mb f))"
proof -
  obtain ra a where ma: "ma = (ra, a)" by (cases ma)
  obtain rb b where mb: "mb = (rb, b)" by (cases mb)
  from m ma mb have r: "rb = ra" and v: "sameView a b" by simp_all
  show ?thesis
  proof (cases ra)
    case None
    with r ma mb f [OF v] show ?thesis by (simp add: andThen_def)
  next
    case (Some e)
    with r ma mb v show ?thesis by (simp add: andThen_def)
  qed
qed

lemma printProgress_view:
  assumes "sameView a b"
  shows "fst (printProgress json a) = fst (printProgress json b) \<and>
         sameView (snd (printProgress json a)) (snd (printProgress json b))"
  using assms
  by (cases a; cases b)
    (simp add: sameView_def printProgress_def repeat_def append_channel_def Let_def)

lemma phaseCallback_view:
  assumes v: "sameView a b"
  shows "fst (phaseCallback json phase i a) = fst (phaseCallback json phase i b) \<and>
         sameView (snd (phaseCallback json phase i a)) (snd (phaseCallback json phase i b))"
proof -
  obtain l g where a: "a = (l, g)" by (cases a)
  obtain g' where b: "b = (l, g')" using v a by (cases b) (simp add: sameView_def)
  show ?thesis
  proof (cases "padSpace phase 9")
    case (Inl e)
    with v a b show ?thesis by (simp add: phaseCallback_def)
  next
    case (Inr label)
    let ?l1 = "l\<lparr>trackedPhases := trackedPhases l @ [phase]\<rparr>"
    from v a b have v1: "sameView (?l1, append_channel (label @ '':'') g)
        (?l1, append_channel (label @ '':'') g')"
      by (simp add: sameView_def append_channel_def)
    from printProgress_view [OF v1, of json] v1 v a b Inr show ?thesis
      by (simp add: phaseCallback_def repeat_def MAX_OUTPUT_def Let_def sameView_def
          appendLine_def)
  qed
qed

lemma forEachPhase_view:
  "sameView a b \<Longrightarrow>
     fst (forEachPhase json xs a) = fst (forEachPhase json xs b) \<and>
     sameView (snd (forEachPhase json xs a)) (snd (forEachPhase json xs b))"
proof (induction xs arbitrary: a b)
  case Nil
  then show ?case by simp
next
  case (Cons x xs)
  obtain phase i where x: "x = (phase, i)" by (cases x)
  from phaseCallback_view [OF Cons.prems, of json phase i]
  have first: "fst (phaseCallback json phase i a) = fst (phaseCallback json phase i b)"
    "sameView (snd (phaseCallback json phase i a)) (snd (phaseCallback json phase i b))"
    by simp_all
  from andThen_view [OF first, of "forEachPhase json xs"] Cons.IH x show ?case by simp
qed

lemma stopTimer_view: "sameView (l, g) (l', g') \<Longrightarrow> sameView (l, stopTimer g) (l', stopTimer g')"
  by (simp add: sameView_def)

lemma finishBlock_view:
  assumes v: "sameView a b"
  shows "fst (finishBlock json a) = fst (finishBlock json b) \<and>
         sameView (snd (finishBlock json a)) (snd (finishBlock json b))"
proof -
  obtain l g where a: "a = (l, g)" by (cases a)
  obtain g' where b: "b = (l, g')" using v a by (cases b) (simp add: sameView_def)
  from v a b have g: "channel g = channel g'" "diagnostics g = diagnostics g'"
    "executed g = executed g'" by (simp_all add: sameView_def)
  show ?thesis
  proof (cases "isVerifierFinish json")
    case False
    with v a b show ?thesis by (simp add: finishBlock_def)
  next
    case True
    let ?last = "\<lambda>(l3, g3). (None :: js_error option, (resolve l3, stopTimer g3))"
    let ?mid = "\<lambda>(l1, g1).
        (let g2 = appendLine (newline @ ''End.'') g1
         in if \<not> isVerifierSuccess json
            then inScope l1
                   (setDiagnostics (errorList json) (job_uri l1)
                      (appendLine (newline @ ''**** Some errors detected.'') g2))
            else (None, (l1, g2)))"
    let ?tail = "\<lambda>x. andThen (?mid x) ?last"
    have last: "fst (?last x) = fst (?last y) \<and> sameView (snd (?last x)) (snd (?last y))"
      if "sameView x y" for x y
      using that by (cases x; cases y) (simp add: sameView_def)
    have mid: "fst (?mid x) = fst (?mid y) \<and> sameView (snd (?mid x)) (snd (?mid y))"
      if xy: "sameView x y" for x y
    proof -
      obtain l1 g1 where x: "x = (l1, g1)" by (cases x)
      obtain g1' where y: "y = (l1, g1')" using xy x by (cases y) (simp add: sameView_def)
      from xy x y have e: "channel g1 = channel g1'" "diagnostics g1 = diagnostics g1'"
        "executed g1 = executed g1'" by (simp_all add: sameView_def)
      let ?h = "\<lambda>g1. appendLine (newline @ ''**** Some errors detected.'')
          (appendLine (newline @ ''End.'') g1)"
      from e have e2: "channel (?h g1) = channel (?h g1')" "diagnostics (?h g1) = diagnostics (?h g1')"
        "executed (?h g1) = executed (?h g1')" by (simp_all add: appendLine_def)
      from setDiagnostics_view [OF e2, of "errorList json" "job_uri l1"]
      have "fst (inScope l1 (setDiagnostics (errorList json) (job_uri l1) (?h g1))) =
            fst (inScope l1 (setDiagnostics (errorList json) (job_uri l1) (?h g1'))) \<and>
          sameView (snd (inScope l1 (setDiagnostics (errorList json) (job_uri l1) (?h g1))))
            (snd (inScope l1 (setDiagnostics (errorList json) (job_uri l1) (?h g1'))))"
        by (intro inScope_view) simp_all
      with e x y show ?thesis by (simp add: Let_def sameView_def appendLine_def)
    qed
    have tail: "fst (?tail x) = fst (?tail y) \<and> sameView (snd (?tail x)) (snd (?tail y))"
      if xy: "sameView x y" for x y
      using mid [OF xy] by (intro andThen_view last) simp_all
    from addMissingHashTags_view [OF g, of "numberOfProgress l" "numOfErrors json"]
    have "fst (inScope l (addMissingHashTags (numberOfProgress l) (numOfErrors json) g)) =
          fst (inScope l (addMissingHashTags (numberOfProgress l) (numOfErrors json) g')) \<and>
        sameView (snd (inScope l (addMissingHashTags (numberOfProgress l) (numOfErrors json) g)))
          (snd (inScope l (addMissingHashTags (numberOfProgress l) (numOfErrors json) g')))"
      by (intro inScope_view) simp_all
    then have first:
      "fst (inScope l (addMissingHashTags (numberOfProgress l) (numOfErrors json) g)) =
       fst (inScope l (addMissingHashTags (numberOfProgress l) (numOfErrors json) g'))"
      "sameView (snd (inScope l (addMissingHashTags (numberOfProgress l) (numOfErrors json) g)))
          (snd (inScope l (addMissingHashTags (numberOfProgress l) (numOfErrors json) g')))"
      by simp_all
    from andThen_view [OF first, of ?tail] tail True a b show ?thesis
      by (simp add: finishBlock_def case_prod_unfold)
  qed
qed

lemma verifierBlock_view:
  assumes v: "sameView a b"
  shows "fst (verifierBlock json a) = fst (verifierBlock json b) \<and>
         sameView (snd (verifierBlock json a)) (snd (verifierBlock json b))"
proof -
  obtain l g where a: "a = (l, g)" by (cases a)
  obtain g' where b: "b = (l, g')" using v a by (cases b) (simp add: sameView_def)
  from v a b have e: "channel g = channel g'" "diagnostics g = diagnostics g'"
    "executed g = executed g'" by (simp_all add: sameView_def)
  from v a b have vv: "sameView (l, g) (l, g')" by simp
  let ?xs = "zip (progressPhases json) [0 ..< length (progressPhases json)]"
  let ?loop = "\<lambda>(l1, g1). forEachPhase json ?xs (l1\<lparr>numberOfProgress := 0\<rparr>, g1)"
  let ?pad = "\<lambda>g. if length (trackedPhases l) \<noteq> 0
             then inScope l (addMissingHashTags (numberOfProgress l) (numOfErrors json) g)
             else (None, (l, g))"
  let ?first = "\<lambda>g. if lastElement (trackedPhases l) = lastElement (progressPhases json)
        then printProgress json (l, g) else andThen (?pad g) ?loop"
  have loop: "fst (?loop x) = fst (?loop y) \<and> sameView (snd (?loop x)) (snd (?loop y))"
    if xy: "sameView x y" for x y
  proof -
    obtain l1 g1 where x: "x = (l1, g1)" by (cases x)
    obtain g1' where y: "y = (l1, g1')" using xy x by (cases y) (simp add: sameView_def)
    from xy x y have "sameView (l1\<lparr>numberOfProgress := 0\<rparr>, g1) (l1\<lparr>numberOfProgress := 0\<rparr>, g1')"
      by (simp add: sameView_def)
    from forEachPhase_view [OF this, of json ?xs] x y show ?thesis by simp
  qed
  from addMissingHashTags_view [OF e, of "numberOfProgress l" "numOfErrors json"]
  have "fst (inScope l (addMissingHashTags (numberOfProgress l) (numOfErrors json) g)) =
        fst (inScope l (addMissingHashTags (numberOfProgress l) (numOfErrors json) g')) \<and>
      sameView (snd (inScope l (addMissingHashTags (numberOfProgress l) (numOfErrors json) g)))
        (snd (inScope l (addMissingHashTags (numberOfProgress l) (numOfErrors json) g')))"
    by (intro inScope_view) simp_all
  with vv have pad: "fst (?pad g) = fst (?pad g')" "sameView (snd (?pad g)) (snd (?pad g'))"
    by simp_all
  have first: "fst (?first g) = fst (?first g')" "sameView (snd (?first g)) (snd (?first g'))"
    using printProgress_view [OF vv, of json] andThen_view [OF pad loop]
    by simp_all
  have fin: "\<And>x y. sameView x y \<Longrightarrow>
      fst (finishBlock json x) = fst (finishBlock json y) \<and>
      sameView (snd (finishBlock json x)) (snd (finishBlock json y))"
    by (rule finishBlock_view)
  from andThen_view [OF first fin] a b show ?thesis
    by (simp add: verifierBlock_def)
qed

lemma queueBlock_view:
  "sameView a b \<Longrightarrow> sameView (queueBlock json a) (queueBlock json b)"
  by (cases a; cases b) (simp add: sameView_def queueBlock_def)

lemma makeenvBlock_view:
  assumes v: "sameView a b"
  shows "fst (makeenvBlock json a) = fst (makeenvBlock json b) \<and>
         sameView (snd (makeenvBlock json a)) (snd (makeenvBlock json b))"
proof -
  obtain l g where a: "a = (l, g)" by (cases a)
  obtain g' where b: "b = (l, g')" using v a by (cases b) (simp add: sameView_def)
  from v a b have e: "channel g = channel g'" "diagnostics g = diagnostics g'"
    "executed g = executed g'" by (simp_all add: sameView_def)
  let ?last = "\<lambda>(l1, g1). (None :: js_error option, (reject (Error ''makeenv error'') l1, stopTimer g1))"
  have last: "fst (?last x) = fst (?last y) \<and> sameView (snd (?last x)) (snd (?last y))"
    if "sameView x y" for x y
    using that by (cases x; cases y) (simp add: sameView_def)
  from setDiagnostics_view [OF e, of "errorList json" "job_uri l"]
  have "fst (inScope l (setDiagnostics (errorList json) (job_uri l) g)) =
        fst (inScope l (setDiagnostics (errorList json) (job_uri l) g')) \<and>
      sameView (snd (inScope l (setDiagnostics (errorList json) (job_uri l) g)))
        (snd (inScope l (setDiagnostics (errorList json) (job_uri l) g')))"
    by (intro inScope_view) simp_all
  then have first: "fst (inScope l (setDiagnostics (errorList json) (job_uri l) g)) =
        fst (inScope l (setDiagnostics (errorList json) (job_uri l) g'))"
      "sameView (snd (inScope l (setDiagnostics (errorList json) (job_uri l) g)))
        (snd (inScope l (setDiagnostics (errorList json) (job_uri l) g')))"
    by simp_all
  from andThen_view [OF first last] e a b show ?thesis
    by (simp add: makeenvBlock_def sameView_def appendLine_def)
qed

lemma onStatus_view:
  assumes v: "sameView a b"
  shows "fst (onStatus json a) = fst (onStatus json b) \<and>
         sameView (snd (onStatus json a)) (snd (onStatus json b))"
proof -
  let ?rest = "\<lambda>(l, g). if currentCommand l = ''verifier'' then verifierBlock json (l, g)
                   else (None, (l, g))"
  have rest: "fst (?rest x) = fst (?rest y) \<and> sameView (snd (?rest x)) (snd (?rest y))"
    if xy: "sameView x y" for x y
  proof -
    obtain l1 g1 where x: "x = (l1, g1)" by (cases x)
    obtain g1' where y: "y = (l1, g1')" using xy x by (cases y) (simp add: sameView_def)
    from verifierBlock_view [OF xy, of json] xy x y show ?thesis by simp
  qed
  from makeenvBlock_view [OF queueBlock_view [OF v], of json json]
  have first: "fst (makeenvBlock json (queueBlock json a)) = fst (makeenvBlock json (queueBlock json b))"
    "sameView (snd (makeenvBlock json (queueBlock json a))) (snd (makeenvBlock json (queueBlock json b)))"
    by simp_all
  from andThen_view [OF first rest] show ?thesis by (simp add: onStatus_def)
qed

lemma onPollError_view:
  "sameView a b \<Longrightarrow> sameView (onPollError e a) (onPollError e b)"
  by (cases a; cases b) (simp add: sameView_def onPollError_def)

lemma handled_view:
  assumes "fst ma = fst mb" "sameView (snd ma) (snd mb)"
  shows "sameView (handled ma) (handled mb)"
  using assms
  by (cases ma; cases mb) (auto simp add: handled_def split: option.splits intro: onPollError_view)

lemma statusArrived_view:
  assumes v: "sameView a b"
  shows "sameView (statusArrived json a) (statusArrived json b)"
proof -
  obtain l g where a: "a = (l, g)" by (cases a)
  obtain g' where b: "b = (l, g')" using v a by (cases b) (simp add: sameView_def)
  show ?thesis
  proof (cases "inFlight l = 0")
    case True
    with v a b show ?thesis by (simp add: statusArrived_def)
  next
    case False
    from v a b have "sameView (l\<lparr>inFlight := inFlight l - 1\<rparr>, g) (l\<lparr>inFlight := inFlight l - 1\<rparr>, g')"
      by (simp add: sameView_def)
    from onStatus_view [OF this, of json] have
      "sameView (handled (onStatus json (l\<lparr>inFlight := inFlight l - 1\<rparr>, g)))
        (handled (onStatus json (l\<lparr>inFlight := inFlight l - 1\<rparr>, g')))"
      by (intro handled_view) simp_all
    with False a b show ?thesis by (simp add: statusArrived_def)
  qed
qed

lemma status_after_stop:
  "jobs (step gh ws (StatusArrived k json) (stopCommand s)) =
     jobs (step gh ws (StatusArrived k json) s) \<and>
   channel (step gh ws (StatusArrived k json) (stopCommand s)) =
     channel (step gh ws (StatusArrived k json) s) \<and>
   diagnostics (step gh ws (StatusArrived k json) (stopCommand s)) =
     diagnostics (step gh ws (StatusArrived k json) s) \<and>
   executed (step gh ws (StatusArrived k json) (stopCommand s)) =
     executed (step gh ws (StatusArrived k json) s)"
proof (cases "k < length (jobs s)")
  case False
  then show ?thesis by (simp add: inJob_def)
next
  case True
  have "sameView (jobs s ! k, stopCommand s) (jobs s ! k, s)"
    by (simp add: sameView_def)
  from statusArrived_view [OF this, of json]
  have v: "sameView (statusArrived json (jobs s ! k, stopCommand s))
      (statusArrived json (jobs s ! k, s))" .
  obtain l1 g1 where r1: "statusArrived json (jobs s ! k, stopCommand s) = (l1, g1)"
    by (cases "statusArrived json (jobs s ! k, stopCommand s)")
  obtain l2 g2 where r2: "statusArrived json (jobs s ! k, s) = (l2, g2)"
    by (cases "statusArrived json (jobs s ! k, s)")
  from v r1 r2 True show ?thesis
    by (simp add: inJob_def sameView_def)
qed

section \<open>The progress bar\<close>

text \<open>
  Claim C1, as the code has it. For every percentage between 0 and 100 and every count of
  markers between 0 and \<open>MAX_OUTPUT\<close>, the count plus the difference that
  \<open>calculateProgressDiff\<close> returns never exceeds \<open>MAX_OUTPUT\<close>. The difference has no
  lower clamp: it is non-negative exactly when the count is at most
  \<open>floor (MAX_OUTPUT * percent / 100)\<close>. The count \<open>numberOfProgress\<close> of a call
  nevertheless never decreases on a status response of the same phase and stays at most
  \<open>MAX_OUTPUT\<close>, since a negative difference makes \<open>repeat\<close> throw before the count is
  updated; and through every sequence of events whose status responses report a
  percentage between 0 and 100, the count of every call stays between 0 and
  \<open>MAX_OUTPUT\<close>.
\<close>

theorem progress_count_bounded:
  "(0 \<le> percent \<and> percent \<le> 100 \<and> 0 \<le> emitted \<and> emitted \<le> MAX_OUTPUT \<longrightarrow>
      emitted + calculateProgressDiff percent emitted \<le> MAX_OUTPUT \<and>
      (0 \<le> calculateProgressDiff percent emitted \<longleftrightarrow>
         emitted \<le> \<lfloor>(of_int MAX_OUTPUT * percent) / 100\<rfloor>)) \<and>
   (k < length (jobs s) \<and> inRange json \<and> counted (jobs s ! k) \<and>
    lastElement (trackedPhases (jobs s ! k)) = lastElement (progressPhases json) \<longrightarrow>
      numberOfProgress (jobs s ! k)
        \<le> numberOfProgress (jobs (step gh ws (StatusArrived k json) s) ! k) \<and>
      numberOfProgress (jobs (step gh ws (StatusArrived k json) s) ! k) \<le> MAX_OUTPUT) \<and>
   (list_all counted (jobs s) \<and> list_all statusInRange es \<longrightarrow>
      list_all counted (jobs (run gh ws es s)))"
proof (intro conjI impI)
  assume "0 \<le> percent \<and> percent \<le> 100 \<and> 0 \<le> emitted \<and> emitted \<le> MAX_OUTPUT"
  then show "0 \<le> calculateProgressDiff percent emitted \<longleftrightarrow>
      emitted \<le> \<lfloor>(of_int MAX_OUTPUT * percent) / 100\<rfloor>"
    by (simp add: calculateProgressDiff_nonneg_iff)
next
  show "emitted + calculateProgressDiff percent emitted \<le> MAX_OUTPUT"
    by (rule calculateProgressDiff_upper)
next
  assume h: "k < length (jobs s) \<and> inRange json \<and> counted (jobs s ! k) \<and>
    lastElement (trackedPhases (jobs s ! k)) = lastElement (progressPhases json)"
  then have k: "k < length (jobs s)" and c: "counted (jobs s ! k)"
    and same: "lastElement (trackedPhases (jobs s ! k)) = lastElement (progressPhases json)"
    by simp_all
  from k have after: "jobs (step gh ws (StatusArrived k json) s) ! k =
      fst (statusArrived json (jobs s ! k, s))"
    by (simp add: inJob_jobs)
  from statusArrived_same_phase [OF same, of s] after
  show "numberOfProgress (jobs s ! k)
        \<le> numberOfProgress (jobs (step gh ws (StatusArrived k json) s) ! k)"
    by simp
  from statusArrived_counted [OF c, of json s] after
  show "numberOfProgress (jobs (step gh ws (StatusArrived k json) s) ! k) \<le> MAX_OUTPUT"
    by (simp add: counted_def)
next
  assume "list_all counted (jobs s) \<and> list_all statusInRange es"
  then show "list_all counted (jobs (run gh ws es s))"
    by (simp add: run_counted)
qed

theorem progress_count_witness:
  "(0::rat) \<le> 60 \<and> (60::rat) \<le> 100 \<and> (0::int) \<le> 10 \<and> (10::int) \<le> MAX_OUTPUT \<and>
   10 + calculateProgressDiff 60 10 \<le> MAX_OUTPUT \<and>
   0 < length (jobs exampleParsing) \<and> inRange exampleNext \<and>
   counted (jobs exampleParsing ! 0) \<and>
   lastElement (trackedPhases (jobs exampleParsing ! 0)) =
     lastElement (progressPhases exampleNext) \<and>
   numberOfProgress (jobs exampleParsing ! 0) = 10 \<and>
   numberOfProgress (jobs exampleParsing ! 0)
     \<le> numberOfProgress (jobs (step exampleGithub exampleWorkspace
           (StatusArrived 0 exampleNext) exampleParsing) ! 0) \<and>
   numberOfProgress (jobs (step exampleGithub exampleWorkspace
       (StatusArrived 0 exampleNext) exampleParsing) ! 0) \<le> MAX_OUTPUT \<and>
   list_all counted (jobs exampleParsing) \<and>
   list_all statusInRange [StatusArrived 0 exampleNext, Tick 1] \<and>
   list_all counted (jobs (run exampleGithub exampleWorkspace
       [StatusArrived 0 exampleNext, Tick 1] exampleParsing))"
proof -
  have a: "(0::rat) \<le> 60 \<and> (60::rat) \<le> 100 \<and> (0::int) \<le> 10 \<and> (10::int) \<le> MAX_OUTPUT"
    by (simp add: MAX_OUTPUT_def)
  have b: "0 < length (jobs exampleParsing) \<and> inRange exampleNext \<and>
      counted (jobs exampleParsing ! 0) \<and>
      lastElement (trackedPhases (jobs exampleParsing ! 0)) =
        lastElement (progressPhases exampleNext)"
    by code_simp
  have c: "list_all counted (jobs exampleParsing) \<and>
      list_all statusInRange [StatusArrived 0 exampleNext, Tick 1]"
    by code_simp
  have d: "numberOfProgress (jobs exampleParsing ! 0) = 10"
    by code_simp
  from progress_count_bounded [of 60 10 0 exampleParsing exampleNext exampleGithub
      exampleWorkspace "[StatusArrived 0 exampleNext, Tick 1]"] a b c d
  show ?thesis by simp
qed

theorem progress_count_counterexample:
  "(0::rat) \<le> 0 \<and> (0::rat) \<le> 100 \<and> (0::int) \<le> 10 \<and> 10 \<le> MAX_OUTPUT \<and>
   calculateProgressDiff 0 10 = - 10"
  by (simp add: calculateProgressDiff_def MAX_OUTPUT_def)

section \<open>Polling\<close>

text \<open>
  Claim C2, as the code has it. A status request is issued by exactly two kinds of
  events: the return of the submission of a call, and a tick of an interval timer that is
  set, whether or not a request of its call is still in flight. Every such event adds one
  request in flight, only the answer or the failure of a request takes one away, and no
  other event changes the count. So at most one request of a call is in flight in the
  schedules where each of these events comes when none is in flight.
\<close>

theorem polls_on_every_tick:
  "filter isPoll (sent (step gh ws e s)) =
     filter isPoll (sent s) @
     (case pollOf e s of Some (j, ident) \<Rightarrow> [GET (''verifier/'' @ ident)] | None \<Rightarrow> []) \<and>
   (k < length (jobs s) \<longrightarrow>
      inFlight (jobs (step gh ws e s) ! k) =
        inFlight (jobs s ! k) + (if map_option fst (pollOf e s) = Some k then 1 else 0)
          - (if settles e s = Some k then 1 else 0)) \<and>
   (pollsAfterSettle gh ws k es s \<and> k < length (jobs s) \<and> inFlight (jobs s ! k) \<le> 1 \<longrightarrow>
      inFlight (jobs (run gh ws es s) ! k) \<le> 1)"
  using step_polls [of gh ws e s] step_inFlight [of k s gh ws e]
    run_sequential [of gh ws k es s]
  by blast

theorem polls_on_every_tick_witness:
  "pollOf (Submitted 0 ''id1'') (step exampleGithub exampleWorkspace exampleCommand initial)
     = Some (0, ''id1'') \<and>
   filter isPoll (sent (step exampleGithub exampleWorkspace exampleCommand initial)) = [] \<and>
   filter isPoll (sent (step exampleGithub exampleWorkspace (Submitted 0 ''id1'')
       (step exampleGithub exampleWorkspace exampleCommand initial))) =
     [GET ''verifier/id1''] \<and>
   pollOf (StatusArrived 0 exampleStatus) exampleSubmitted = None \<and>
   filter isPoll (sent (step exampleGithub exampleWorkspace (StatusArrived 0 exampleStatus)
       exampleSubmitted)) = [GET ''verifier/id1''] \<and>
   inFlight (jobs (step exampleGithub exampleWorkspace (StatusArrived 0 exampleStatus)
       exampleSubmitted) ! 0) = 0 \<and>
   0 < length (jobs exampleSubmitted) \<and>
   inFlight (jobs exampleSubmitted ! 0) = 1 \<and>
   pollOf (Tick 1) exampleSubmitted = Some (0, ''id1'') \<and>
   filter isPoll (sent (step exampleGithub exampleWorkspace (Tick 1) exampleSubmitted)) =
     [GET ''verifier/id1'', GET ''verifier/id1''] \<and>
   inFlight (jobs (step exampleGithub exampleWorkspace (Tick 1) exampleSubmitted) ! 0) = 2 \<and>
   pollsAfterSettle exampleGithub exampleWorkspace 0
     [StatusArrived 0 exampleStatus, Tick 1, StatusArrived 0 exampleNext, Tick 1]
     exampleSubmitted \<and>
   inFlight (jobs (run exampleGithub exampleWorkspace
     [StatusArrived 0 exampleStatus, Tick 1, StatusArrived 0 exampleNext, Tick 1]
     exampleSubmitted) ! 0) \<le> 1"
proof -
  have a: "0 < length (jobs exampleSubmitted) \<and> inFlight (jobs exampleSubmitted ! 0) = 1 \<and>
      pollOf (Tick 1) exampleSubmitted = Some (0, ''id1'') \<and>
      settles (Tick 1) exampleSubmitted = None \<and>
      filter isPoll (sent exampleSubmitted) = [GET ''verifier/id1'']"
    by code_simp
  have b: "pollsAfterSettle exampleGithub exampleWorkspace 0
     [StatusArrived 0 exampleStatus, Tick 1, StatusArrived 0 exampleNext, Tick 1]
     exampleSubmitted"
    by code_simp
  have c: "pollOf (Submitted 0 ''id1'')
        (step exampleGithub exampleWorkspace exampleCommand initial) = Some (0, ''id1'') \<and>
      filter isPoll (sent (step exampleGithub exampleWorkspace exampleCommand initial)) = []"
    by code_simp
  have d: "pollOf (StatusArrived 0 exampleStatus) exampleSubmitted = None \<and>
      settles (StatusArrived 0 exampleStatus) exampleSubmitted = Some 0"
    by code_simp
  from polls_on_every_tick [of exampleGithub exampleWorkspace "Tick 1" exampleSubmitted 0
      "[StatusArrived 0 exampleStatus, Tick 1, StatusArrived 0 exampleNext, Tick 1]"]
    polls_on_every_tick [of exampleGithub exampleWorkspace "Submitted 0 ''id1''"
      "step exampleGithub exampleWorkspace exampleCommand initial" 0 "[]"]
    polls_on_every_tick [of exampleGithub exampleWorkspace "StatusArrived 0 exampleStatus"
      exampleSubmitted 0 "[]"]
    a b c d
  show ?thesis by simp
qed

theorem overlapping_polls_counterexample:
  "promise (jobs exampleSubmitted ! 0) = Pending \<and>
   inFlight (jobs exampleSubmitted ! 0) = 1 \<and>
   promise (jobs (step exampleGithub exampleWorkspace (Tick 1) exampleSubmitted) ! 0)
     = Pending \<and>
   inFlight (jobs (step exampleGithub exampleWorkspace (Tick 1) exampleSubmitted) ! 0) = 2 \<and>
   sent (step exampleGithub exampleWorkspace (Tick 1) exampleSubmitted) =
     [POST ''verifier'' (''a.miz'', ''https://github.com/o/r'', ''verifier''),
      GET ''verifier/id1'', GET ''verifier/id1'']"
  by code_simp

section \<open>The stop command\<close>

text \<open>
  Claim C7, as the code has it. When \<open>intervalId\<close> holds a timer, the stop command
  clears that timer, shows a message and sends the request that deletes the job; when it
  holds none, as during the five seconds of waiting in the queue, the stop command does
  none of these. In both cases it resets \<open>isExecuting\<close>, leaves \<open>intervalId\<close> as it is,
  sets no flag the handler of a status response reads, and changes neither the variables
  of any call, nor the channel, nor the diagnostics. A status response that arrives
  afterwards is handled as it would have been without the stop command: the same
  variables of every call, the same text in the channel, the same diagnostics.
\<close>

theorem response_after_stop_handled:
  "(intervalId s = Some i \<longrightarrow>
      activeIntervals (stopCommand s) = filter (\<lambda>t. fst t \<noteq> i) (activeIntervals s) \<and>
      notifications (stopCommand s) =
        notifications s @ [InformationMessage ''Command stopped!''] \<and>
      sent (stopCommand s) = sent s @ [DELETE (''verifier/'' @ uuid s)]) \<and>
   (intervalId s = None \<longrightarrow>
      activeIntervals (stopCommand s) = activeIntervals s \<and>
      notifications (stopCommand s) = notifications s \<and>
      sent (stopCommand s) = sent s) \<and>
   isExecuting (stopCommand s) = False \<and>
   intervalId (stopCommand s) = intervalId s \<and>
   jobs (stopCommand s) = jobs s \<and>
   channel (stopCommand s) = channel s \<and>
   diagnostics (stopCommand s) = diagnostics s \<and>
   executed (stopCommand s) = executed s \<and>
   jobs (step gh ws (StatusArrived k json) (stopCommand s)) =
     jobs (step gh ws (StatusArrived k json) s) \<and>
   channel (step gh ws (StatusArrived k json) (stopCommand s)) =
     channel (step gh ws (StatusArrived k json) s) \<and>
   diagnostics (step gh ws (StatusArrived k json) (stopCommand s)) =
     diagnostics (step gh ws (StatusArrived k json) s) \<and>
   executed (step gh ws (StatusArrived k json) (stopCommand s)) =
     executed (step gh ws (StatusArrived k json) s)"
proof -
  have "intervalId s = Some i \<longrightarrow>
      activeIntervals (stopCommand s) = filter (\<lambda>t. fst t \<noteq> i) (activeIntervals s) \<and>
      notifications (stopCommand s) =
        notifications s @ [InformationMessage ''Command stopped!''] \<and>
      sent (stopCommand s) = sent s @ [DELETE (''verifier/'' @ uuid s)]"
    by (simp add: stopCommand_def clearInterval_def)
  moreover have "intervalId s = None \<longrightarrow>
      activeIntervals (stopCommand s) = activeIntervals s \<and>
      notifications (stopCommand s) = notifications s \<and>
      sent (stopCommand s) = sent s"
    by (simp add: stopCommand_def)
  ultimately show ?thesis
    using status_after_stop [of gh ws k json s] by simp
qed

theorem response_after_stop_witness:
  "intervalId exampleSubmitted = Some 1 \<and>
   activeIntervals exampleSubmitted = [(1, 0)] \<and>
   activeIntervals (stopCommand exampleSubmitted) = [] \<and>
   sent (stopCommand exampleSubmitted) = sent exampleSubmitted @ [DELETE ''verifier/id1''] \<and>
   intervalId (step exampleGithub exampleWorkspace (StatusArrived 0 exampleQueued)
       exampleSubmitted) = None \<and>
   sent (stopCommand (step exampleGithub exampleWorkspace (StatusArrived 0 exampleQueued)
       exampleSubmitted)) =
     sent (step exampleGithub exampleWorkspace (StatusArrived 0 exampleQueued)
       exampleSubmitted) \<and>
   channel (step exampleGithub exampleWorkspace (StatusArrived 0 exampleStatus)
       (stopCommand exampleSubmitted)) =
     channel (step exampleGithub exampleWorkspace (StatusArrived 0 exampleStatus)
       exampleSubmitted)"
proof -
  let ?queued = "step exampleGithub exampleWorkspace (StatusArrived 0 exampleQueued)
       exampleSubmitted"
  have a: "intervalId exampleSubmitted = Some 1 \<and> activeIntervals exampleSubmitted = [(1, 0)] \<and>
      uuid exampleSubmitted = ''id1''"
    by code_simp
  have b: "intervalId ?queued = None"
    by code_simp
  from response_after_stop_handled [of exampleSubmitted 1 exampleGithub exampleWorkspace 0
      exampleStatus]
    response_after_stop_handled [of ?queued 1 exampleGithub exampleWorkspace 0 exampleStatus]
    a b
  show ?thesis by simp
qed

theorem response_after_stop_counterexample:
  "inFlight (jobs (stopCommand exampleSubmitted) ! 0) = 1 \<and>
   channel (stopCommand exampleSubmitted) = [] \<and>
   currentCommand (jobs (stopCommand exampleSubmitted) ! 0) = ''makeenv'' \<and>
   channel (step exampleGithub exampleWorkspace (StatusArrived 0 exampleStatus)
       (stopCommand exampleSubmitted)) \<noteq> [] \<and>
   currentCommand (jobs (step exampleGithub exampleWorkspace (StatusArrived 0 exampleStatus)
       (stopCommand exampleSubmitted)) ! 0) = ''verifier'' \<and>
   numberOfProgress (jobs (step exampleGithub exampleWorkspace (StatusArrived 0 exampleStatus)
       (stopCommand exampleSubmitted)) ! 0) = 10 \<and>
   diagnostics (step exampleGithub exampleWorkspace (StatusArrived 0 exampleFailure)
       (stopCommand exampleSubmitted)) (uri_string exampleUri) =
     Some [\<lparr>diagnostic_range =
              \<lparr>range_start = \<lparr>position_line = 2, position_character = 4\<rparr>,
               range_end = \<lparr>position_line = 2, position_character = 4\<rparr>\<rparr>,
            diagnostic_message = ''err''\<rparr>] \<and>
   executed (step exampleGithub exampleWorkspace (StatusArrived 0 exampleFailure)
       (stopCommand exampleSubmitted)) = [''workbench.action.problems.focus''] \<and>
   promise (jobs (step exampleGithub exampleWorkspace (StatusArrived 0 exampleFailure)
       (stopCommand exampleSubmitted)) ! 0) = Rejected (Error ''makeenv error'') \<and>
   sent exampleStoppedInQueue =
     [POST ''verifier'' (''a.miz'', ''https://github.com/o/r'', ''verifier''),
      GET ''verifier/id1'', GET ''verifier/id1''] \<and>
   notifications exampleStoppedInQueue = []"
  by code_simp

section \<open>Commands\<close>




section \<open>The sync cycle\<close>

lemma startsWith_append [simp]: "startsWith (p @ s) p"
  by (induction p) simp_all

lemma includes_js_prefix [simp]: "includes_js (p @ s) p"
proof (cases "p @ s")
  case Nil
  then show ?thesis by (simp add: includes_js_def indexOf_def)
next
  case (Cons c cs)
  have "startsWith (p @ s) p" by simp
  with Cons show ?thesis by (simp add: includes_js_def indexOf_def)
qed















text \<open>
  Claim C3 at a failing input. Every content request fails with the status 500: the
  cycle for the changed path \<open>/o/r/text/a.miz\<close> returns normally and empties the stored
  list, while \<open>commitActiveFile\<close> throws the same error. And a deletion whose content
  request fails: \<open>commitDeletions\<close> throws, the cycle that called it returns normally and
  empties the stored list.
\<close>

theorem sync_failure_not_surfaced:
  "getContent exampleDown ''text/a.miz'' = Inl (RequestError 500) \<and>
   outcome (commitChanges exampleDown exampleWorkspace (Some [''/o/r/text/a.miz'']) ''/o/r'')
     = Inr () \<and>
   stored (commitChanges exampleDown exampleWorkspace (Some [''/o/r/text/a.miz'']) ''/o/r'')
     = Some [] \<and>
   fst (commitActiveFile exampleDown ''/o/r/text/a.miz'' ''new'' ''/o/r'')
     = Inl (RequestError 500) \<and>
   exampleWorkspace ''/o/r/text/gone.miz'' = None \<and>
   commitDeletions exampleGithub [''text/gone.miz'']
     = (Inl (RequestError 404), [GetContent ''text/gone.miz'']) \<and>
   outcome (commitChanges exampleGithub exampleWorkspace (Some [''/o/r/text/gone.miz'']) ''/o/r'')
     = Inr () \<and>
   stored (commitChanges exampleGithub exampleWorkspace (Some [''/o/r/text/gone.miz'']) ''/o/r'')
     = Some []"
  by code_simp

text \<open>
  Claim C5 at a failing input. The branch is missing, the default branch is \<open>main\<close> and
  its head is the commit \<open>c0\<close>: the ref that is looked up is
  \<open>heads/[object Promise]\<close>, not \<open>heads/main\<close>, and no ref is created.
\<close>

theorem default_branch_not_resolved:
  "getRepository exampleNoBranch = Inr ''main'' \<and>
   getRef exampleNoBranch ''heads/main'' = Inr ''c0'' \<and>
   ensureBranchExists exampleNoBranch =
     (Inl (RequestError 404), [ListBranches, GetRepository, GetRef ''heads/[object Promise]''])"
  by code_simp

text \<open>
  Claim C8 at a failing input. The stored list holds \<open>/o/r/mml.ini\<close>, whose content on
  the branch differs from the local text: the path is processed twice, and the tree
  passed to the request that creates the tree has two entries for \<open>mml.ini\<close>.
\<close>

theorem duplicate_tree_entry:
  "requests (commitChanges exampleStale exampleWorkspace (Some [''/o/r/mml.ini'']) ''/o/r'') =
     [ListBranches, GetContent ''mml.ini'', CreateBlob ''ini'', GetContent ''mml.ini'',
      CreateBlob ''ini'', GetBranch,
      CreateTree [blobEntry ''mml.ini'' ''blob-ini'', blobEntry ''mml.ini'' ''blob-ini''] ''c1'',
      CreateCommit commitMessage ''t1'' [''c1''], UpdateRef ''heads/verifier'' ''c2'']"
  by code_simp

end
